theory Spec2Isabelle
  imports Main
begin

section \<open>The sparse matrix of casadi/matrix/matrix.hpp\<close>

text \<open>
  \<^verbatim>\<open>Matrix<T>\<close> derives from \<^verbatim>\<open>std::vector<T>\<close> (the stored values) and owns the
  column vector \<^verbatim>\<open>col_\<close>, the row offsets \<^verbatim>\<open>rowind_\<close> and the shape
  \<^verbatim>\<open>nrow_\<close>, \<^verbatim>\<open>ncol_\<close>. The fields below are named after the accessors
  \<^verbatim>\<open>col()\<close>, \<^verbatim>\<open>rowind()\<close>; \<open>data\<close> is the inherited vector of values.

  Values of the C++ type \<^verbatim>\<open>int\<close> are integers; the products \<open>n * m\<close>, the sums
  \<open>n + 1\<close> of a shape and the conversions between \<^verbatim>\<open>int\<close> and \<^verbatim>\<open>size_t\<close> are
  reduced to the range of the type where the source computes them (\<open>int32\<close>,
  \<open>size_t\<close> below). The steps of the loops and the sums \<open>i + 1\<close> of an index are
  written without the reduction: they stay in the range of \<^verbatim>\<open>int\<close> as long as the
  number of rows and the number of stored entries are below its maximum.
\<close>

subsection \<open>The types int and size_t\<close>

text \<open>
  \<^verbatim>\<open>int\<close> has 32 bits. An overflow of a signed operation is undefined in C++; the
  compiled code computes modulo \<open>2^32\<close> in two's complement, and so does \<open>int32\<close>, which
  maps the exact result of an operation to the value of type \<^verbatim>\<open>int\<close> that the program
  gets. \<^verbatim>\<open>size_t\<close> has 64 bits; \<open>size_t\<close> is the conversion of an \<^verbatim>\<open>int\<close> to it.
\<close>

definition INT_MAX :: int where
  "INT_MAX = 2147483647"

definition int32 :: "int \<Rightarrow> int" where
  "int32 x = (x + 2147483648) mod 4294967296 - 2147483648"

definition size_t :: "int \<Rightarrow> int" where
  "size_t x = x mod 18446744073709551616"

subsection \<open>Failures\<close>

datatype error =
    CasadiException string  \<comment> \<open>\<^verbatim>\<open>throw CasadiException(msg)\<close>\<close>
  | OutOfRange              \<comment> \<open>\<^verbatim>\<open>std::out_of_range\<close> of \<^verbatim>\<open>std::vector::at\<close>\<close>
  | LengthError             \<comment> \<open>\<^verbatim>\<open>std::length_error\<close> of \<^verbatim>\<open>std::vector::resize\<close>\<close>
  | UndefinedBehaviour      \<comment> \<open>an access outside a vector without a check\<close>

subsection \<open>The operations of std::vector that the class uses\<close>

text \<open>\<^verbatim>\<open>v.at(i)\<close>: the index is converted to \<^verbatim>\<open>size_t\<close>, a negative one becomes huge.\<close>

definition vector_at :: "'a list \<Rightarrow> int \<Rightarrow> error + 'a" where
  "vector_at xs i =
     (if 0 \<le> i \<and> i < int (length xs) then Inr (xs ! nat i) else Inl OutOfRange)"

text \<open>\<^verbatim>\<open>v[i]\<close> read: no check.\<close>

definition vector_index :: "'a list \<Rightarrow> int \<Rightarrow> error + 'a" where
  "vector_index xs i =
     (if 0 \<le> i \<and> i < int (length xs) then Inr (xs ! nat i) else Inl UndefinedBehaviour)"

text \<open>\<^verbatim>\<open>v[i] = x\<close>: no check.\<close>

definition vector_assign :: "'a list \<Rightarrow> int \<Rightarrow> 'a \<Rightarrow> error + 'a list" where
  "vector_assign xs i x =
     (if 0 \<le> i \<and> i < int (length xs) then Inr (xs[nat i := x]) else Inl UndefinedBehaviour)"

text \<open>\<^verbatim>\<open>v.back() = x\<close>: undefined on an empty vector.\<close>

definition vector_back_assign :: "'a list \<Rightarrow> 'a \<Rightarrow> error + 'a list" where
  "vector_back_assign xs x =
     (if xs = [] then Inl UndefinedBehaviour else Inr (xs[length xs - 1 := x]))"

text \<open>
  \<^verbatim>\<open>v.resize(n, x)\<close> with an \<^verbatim>\<open>int\<close> argument: a negative \<open>n\<close> is converted to a
  \<^verbatim>\<open>size_t\<close> above \<^verbatim>\<open>max_size()\<close> and the call throws.
\<close>

definition vector_resize :: "'a list \<Rightarrow> int \<Rightarrow> 'a \<Rightarrow> error + 'a list" where
  "vector_resize xs n x =
     (if n < 0 then Inl LengthError
      else Inr (take (nat n) xs @ replicate (nat n - length xs) x))"

text \<open>\<^verbatim>\<open>v.insert(v.begin() + i, x)\<close>: the iterator must lie in \<open>[begin, end]\<close>.\<close>

definition vector_insert :: "'a list \<Rightarrow> int \<Rightarrow> 'a \<Rightarrow> error + 'a list" where
  "vector_insert xs i x =
     (if 0 \<le> i \<and> i \<le> int (length xs) then Inr (take (nat i) xs @ x # drop (nat i) xs)
      else Inl UndefinedBehaviour)"

text \<open>
  \<^verbatim>\<open>return std::vector<T>::at(ind)\<close> in a function returning \<^verbatim>\<open>T&\<close>: the reference
  is the position of the slot in the vector of values.
\<close>

definition vector_at_ref :: "'a list \<Rightarrow> int \<Rightarrow> error + int" where
  "vector_at_ref xs i =
     (if 0 \<le> i \<and> i < int (length xs) then Inr i else Inl OutOfRange)"

text \<open>
  \<^verbatim>\<open>copy(x.begin(), x.end(), v.begin())\<close>: overwrites the first \<open>length x\<close> slots;
  writing past the end is undefined.
\<close>

definition vector_copy :: "'a list \<Rightarrow> 'a list \<Rightarrow> error + 'a list" where
  "vector_copy x v =
     (if length x \<le> length v then Inr (x @ drop (length x) v) else Inl UndefinedBehaviour)"

subsection \<open>The class\<close>

record 'a Matrix =
  data :: "'a list"
  col :: "int list"
  rowind :: "int list"
  nrow :: int
  ncol :: int

definition size1 :: "'a Matrix \<Rightarrow> int" where
  "size1 M = nrow M"

definition size2 :: "'a Matrix \<Rightarrow> int" where
  "size2 M = ncol M"

definition numel :: "'a Matrix \<Rightarrow> int" where
  "numel M = int32 (size1 M * size2 M)"

definition empty :: "'a Matrix \<Rightarrow> bool" where
  "empty M \<longleftrightarrow> numel M = 0"

definition scalar :: "'a Matrix \<Rightarrow> bool" where
  "scalar M \<longleftrightarrow> size1 M = 1 \<and> size2 M = 1"

definition vector :: "'a Matrix \<Rightarrow> bool" where
  "vector M \<longleftrightarrow> size2 M = 1"

subsection \<open>getElement\<close>

text \<open>
  The loop \<^verbatim>\<open>for(ind = lo; ind < hi; ++ind)\<close> of \<^verbatim>\<open>getElement\<close>, from position
  \<open>ind\<close> on: \<^verbatim>\<open>col_[ind]\<close> is read without a check, the value with \<^verbatim>\<open>at\<close>.
\<close>

function getElement_loop :: "int list \<Rightarrow> 'a::zero list \<Rightarrow> int \<Rightarrow> int \<Rightarrow> int \<Rightarrow> error + 'a" where
  "getElement_loop cs vs j ind hi =
     (if ind < hi then
        (case vector_index cs ind of
           Inl e \<Rightarrow> Inl e
         | Inr c \<Rightarrow>
             if c = j then vector_at vs ind
             else if c > j then Inr 0
             else getElement_loop cs vs j (ind + 1) hi)
      else Inr 0)"
  by pat_completeness auto
termination
  by (relation "measure (\<lambda>(cs, vs, j, ind, hi). nat (hi - ind))") auto

declare getElement_loop.simps [simp del]

definition getElement :: "'a::zero Matrix \<Rightarrow> int \<Rightarrow> int \<Rightarrow> error + 'a" where
  "getElement M i j =
     (if i \<ge> size1 M \<or> j \<ge> size2 M
      then Inl (CasadiException ''Matrix::getElement: out of bounds'')
      else
        (case vector_at (rowind M) i of
           Inl e \<Rightarrow> Inl e
         | Inr lo \<Rightarrow>
             (case vector_at (rowind M) (i + 1) of
                Inl e \<Rightarrow> Inl e
              | Inr hi \<Rightarrow> getElement_loop (col M) (data M) j lo hi)))"

subsection \<open>getElementRef\<close>

text \<open>
  The loop of \<^verbatim>\<open>getElementRef\<close> leaves either by \<^verbatim>\<open>return\<close> (the element exists at
  \<open>ind\<close>) or with \<open>ind\<close> at the place of the insertion (by \<^verbatim>\<open>break\<close> or at the end
  of the row).
\<close>

datatype scan = Found int | Absent int

function getElementRef_loop :: "int list \<Rightarrow> int \<Rightarrow> int \<Rightarrow> int \<Rightarrow> error + scan" where
  "getElementRef_loop cs j ind hi =
     (if ind < hi then
        (case vector_index cs ind of
           Inl e \<Rightarrow> Inl e
         | Inr c \<Rightarrow>
             if c = j then Inr (Found ind)
             else if c > j then Inr (Absent ind)
             else getElementRef_loop cs j (ind + 1) hi)
      else Inr (Absent ind))"
  by pat_completeness auto
termination
  by (relation "measure (\<lambda>(cs, j, ind, hi). nat (hi - ind))") auto

declare getElementRef_loop.simps [simp del]

text \<open>\<^verbatim>\<open>for(int row = i+1; row < size1()+1; ++row) rowind_[row]++;\<close> from \<open>row\<close> on.\<close>

function rowind_loop :: "int list \<Rightarrow> int \<Rightarrow> int \<Rightarrow> error + int list" where
  "rowind_loop rs row n =
     (if row < n + 1 then
        (case vector_index rs row of
           Inl e \<Rightarrow> Inl e
         | Inr r \<Rightarrow>
             (case vector_assign rs row (r + 1) of
                Inl e \<Rightarrow> Inl e
              | Inr rs' \<Rightarrow> rowind_loop rs' (row + 1) n))
      else Inr rs)"
  by pat_completeness auto
termination
  by (relation "measure (\<lambda>(rs, row, n). nat (n + 1 - row))") auto

declare rowind_loop.simps [simp del]

text \<open>
  A member function that changes the object returns its result, or the failure, together
  with the object as it is at that moment. The result of \<^verbatim>\<open>getElementRef\<close> is the
  position of the slot in \<open>data\<close> that the returned reference denotes.
\<close>

definition getElementRef :: "'a::zero Matrix \<Rightarrow> int \<Rightarrow> int \<Rightarrow> (error + int) \<times> 'a Matrix" where
  "getElementRef M i j =
     (if i \<ge> size1 M \<or> j \<ge> size2 M
      then (Inl (CasadiException ''Matrix::getElementRef: out of bounds''), M)
      else
        (case vector_index (rowind M) i of
           Inl e \<Rightarrow> (Inl e, M)
         | Inr lo \<Rightarrow>
        (case vector_index (rowind M) (i + 1) of
           Inl e \<Rightarrow> (Inl e, M)
         | Inr hi \<Rightarrow>
        (case getElementRef_loop (col M) j lo hi of
           Inl e \<Rightarrow> (Inl e, M)
         | Inr (Found ind) \<Rightarrow> (vector_at_ref (data M) ind, M)
         | Inr (Absent ind) \<Rightarrow>
        (case vector_insert (data M) ind 0 of
           Inl e \<Rightarrow> (Inl e, M)
         | Inr d \<Rightarrow>
        (case vector_insert (col M) ind j of
           Inl e \<Rightarrow> (Inl e, M\<lparr>data := d\<rparr>)
         | Inr c \<Rightarrow>
        (case rowind_loop (rowind M) (i + 1) (size1 M) of
           Inl e \<Rightarrow> (Inl e, M\<lparr>data := d, col := c\<rparr>)
         | Inr r \<Rightarrow> (vector_at_ref d ind, M\<lparr>data := d, col := c, rowind := r\<rparr>))))))))"

text \<open>Assignment through the reference that \<^verbatim>\<open>getElementRef\<close> returned.\<close>

definition assign_ref :: "'a Matrix \<Rightarrow> int \<Rightarrow> 'a \<Rightarrow> 'a Matrix" where
  "assign_ref M k v = M\<lparr>data := (data M)[nat k := v]\<rparr>"

subsection \<open>makeEmpty and makeDense\<close>

definition makeEmpty :: "int \<Rightarrow> int \<Rightarrow> 'a Matrix \<Rightarrow> (error + unit) \<times> 'a Matrix" where
  "makeEmpty n m M =
     (let M1 = M\<lparr>nrow := n, ncol := m, data := [], col := [], rowind := []\<rparr> in
      case vector_resize [] (int32 (n + 1)) 0 of
        Inl e \<Rightarrow> (Inl e, M1)
      | Inr r \<Rightarrow> (Inr (), M1\<lparr>rowind := r\<rparr>))"

text \<open>The inner loop \<^verbatim>\<open>for(int j=0; j<size2(); ++j){ col_[el] = j; el++; }\<close> from \<open>j\<close> on.\<close>

function makeDense_cols :: "int \<Rightarrow> int \<Rightarrow> int list \<Rightarrow> int \<Rightarrow> error + int list \<times> int" where
  "makeDense_cols j m cs el =
     (if j < m then
        (case vector_assign cs el j of
           Inl e \<Rightarrow> Inl e
         | Inr cs' \<Rightarrow> makeDense_cols (j + 1) m cs' (el + 1))
      else Inr (cs, el))"
  by pat_completeness auto
termination
  by (relation "measure (\<lambda>(j, m, cs, el). nat (m - j))") auto

declare makeDense_cols.simps [simp del]

text \<open>The outer loop \<^verbatim>\<open>for(int i=0; i<size1(); ++i)\<close> from \<open>i\<close> on.\<close>

function makeDense_rows ::
  "int \<Rightarrow> int \<Rightarrow> int \<Rightarrow> int list \<Rightarrow> int list \<Rightarrow> int \<Rightarrow> error + int list \<times> int list \<times> int" where
  "makeDense_rows i n m rs cs el =
     (if i < n then
        (case vector_assign rs i el of
           Inl e \<Rightarrow> Inl e
         | Inr rs' \<Rightarrow>
             (case makeDense_cols 0 m cs el of
                Inl e \<Rightarrow> Inl e
              | Inr (cs', el') \<Rightarrow> makeDense_rows (i + 1) n m rs' cs' el'))
      else Inr (rs, cs, el))"
  by pat_completeness auto
termination
  by (relation "measure (\<lambda>(i, n, m, rs, cs, el). nat (n - i))") auto

declare makeDense_rows.simps [simp del]

text \<open>
  \<^verbatim>\<open>col_\<close> and \<^verbatim>\<open>rowind_\<close> are resized, not cleared: what they held stays until the
  loops overwrite it. A failure inside the loops leaves the two vectors in a state that
  is not tracked here.
\<close>

definition makeDense :: "int \<Rightarrow> int \<Rightarrow> 'a \<Rightarrow> 'a Matrix \<Rightarrow> (error + unit) \<times> 'a Matrix" where
  "makeDense n m val M =
     (let M1 = M\<lparr>nrow := n, ncol := m, data := []\<rparr> in
      case vector_resize [] (int32 (n * m)) val of
        Inl e \<Rightarrow> (Inl e, M1)
      | Inr d \<Rightarrow>
     (let M2 = M1\<lparr>data := d\<rparr> in
      case vector_resize (col M) (int32 (n * m)) 0 of
        Inl e \<Rightarrow> (Inl e, M2)
      | Inr c \<Rightarrow>
     (let M3 = M2\<lparr>col := c\<rparr> in
      case vector_resize (rowind M) (int32 (n + 1)) 0 of
        Inl e \<Rightarrow> (Inl e, M3)
      | Inr r \<Rightarrow>
     (let M4 = M3\<lparr>rowind := r\<rparr> in
      case makeDense_rows 0 (size1 M4) (size2 M4) r c 0 of
        Inl e \<Rightarrow> (Inl e, M4)
      | Inr (r', c', el) \<Rightarrow>
     (case vector_back_assign r' el of
        Inl e \<Rightarrow> (Inl e, M4\<lparr>rowind := r', col := c'\<rparr>)
      | Inr r'' \<Rightarrow> (Inr (), M4\<lparr>rowind := r'', col := c'\<rparr>))))))"

subsection \<open>Constructors\<close>

text \<open>
  A constructor starts from an object whose vectors are empty. \<^verbatim>\<open>nrow_\<close> and
  \<^verbatim>\<open>ncol_\<close> are not initialised by the class; every constructor assigns them (in
  \<^verbatim>\<open>makeEmpty\<close> or \<^verbatim>\<open>makeDense\<close>) before anything reads them, so the value given
  to them here is never observed. A constructor that throws yields no object.
\<close>

definition new_object :: "'a Matrix" where
  "new_object = \<lparr>data = [], col = [], rowind = [], nrow = 0, ncol = 0\<rparr>"

definition constructed :: "(error + 'r) \<times> 'a Matrix \<Rightarrow> error + 'a Matrix" where
  "constructed r = (case fst r of Inl e \<Rightarrow> Inl e | Inr _ \<Rightarrow> Inr (snd r))"

text \<open>\<^verbatim>\<open>Matrix()\<close>\<close>

definition Matrix_default :: "error + 'a Matrix" where
  "Matrix_default = constructed (makeEmpty 0 0 new_object)"

text \<open>\<^verbatim>\<open>Matrix(int n, int m)\<close>\<close>

definition Matrix_empty :: "int \<Rightarrow> int \<Rightarrow> error + 'a Matrix" where
  "Matrix_empty n m = constructed (makeEmpty n m new_object)"

text \<open>\<^verbatim>\<open>Matrix(int n, int m, const T& val)\<close>\<close>

definition Matrix_dense :: "int \<Rightarrow> int \<Rightarrow> 'a \<Rightarrow> error + 'a Matrix" where
  "Matrix_dense n m val = constructed (makeDense n m val new_object)"

text \<open>\<^verbatim>\<open>Matrix(const T& val)\<close>: \<^verbatim>\<open>makeEmpty(1,1); getElementRef() = val;\<close>\<close>

definition Matrix_scalar :: "'a::zero \<Rightarrow> error + 'a Matrix" where
  "Matrix_scalar val =
     (case makeEmpty 1 1 new_object of
        (Inl e, _) \<Rightarrow> Inl e
      | (Inr _, M1) \<Rightarrow>
          (case getElementRef M1 0 0 of
             (Inl e, _) \<Rightarrow> Inl e
           | (Inr k, M2) \<Rightarrow> Inr (assign_ref M2 k val)))"

text \<open>
  \<^verbatim>\<open>Matrix(const std::vector<A>& x)\<close>; \<open>conv\<close> is the conversion from \<open>A\<close> to \<open>T\<close>
  that \<^verbatim>\<open>copy\<close> applies to every element.
\<close>

definition Matrix_vector :: "('b \<Rightarrow> 'a) \<Rightarrow> 'b list \<Rightarrow> error + 'a::one Matrix" where
  "Matrix_vector conv x =
     (case makeDense (int32 (int (length x))) 1 1 new_object of
        (Inl e, _) \<Rightarrow> Inl e
      | (Inr _, M1) \<Rightarrow>
          (case vector_copy (map conv x) (data M1) of
             Inl e \<Rightarrow> Inl e
           | Inr d \<Rightarrow> Inr (M1\<lparr>data := d\<rparr>)))"

text \<open>
  \<^verbatim>\<open>Matrix(const std::vector<A>& x, int n, int m)\<close>. The test \<^verbatim>\<open>x.size() != n*m\<close>
  computes the product in \<^verbatim>\<open>int\<close> and compares in \<^verbatim>\<open>size_t\<close>: a negative product
  becomes a value no size can have.
\<close>

definition Matrix_vector_shaped :: "('b \<Rightarrow> 'a) \<Rightarrow> 'b list \<Rightarrow> int \<Rightarrow> int \<Rightarrow> error + 'a::one Matrix" where
  "Matrix_vector_shaped conv x n m =
     (if int (length x) \<noteq> size_t (int32 (n * m))
      then Inl (CasadiException
        ''Matrix::Matrix(const std::vector<double>& x,  int n, int m): dimension mismatch'')
      else
        (case makeDense n m 1 new_object of
           (Inl e, _) \<Rightarrow> Inl e
         | (Inr _, M1) \<Rightarrow>
             (case vector_copy (map conv x) (data M1) of
                Inl e \<Rightarrow> Inl e
              | Inr d \<Rightarrow> Inr (M1\<lparr>data := d\<rparr>))))"

subsection \<open>Printing\<close>

text \<open>
  The stream is the text written so far; \<^verbatim>\<open>stream << x\<close> appends. \<open>render\<close> is
  \<^verbatim>\<open>operator<<\<close> of the element type. \<^verbatim>\<open>print\<close> and the functions it calls
  are \<^verbatim>\<open>const\<close>, so \<^verbatim>\<open>(*this)(i,j)\<close> is the overload that returns
  \<^verbatim>\<open>getElement(i,j)\<close>. A function that throws returns the failure only.
\<close>

definition show_digit :: "nat \<Rightarrow> char" where
  "show_digit d = ''0123456789'' ! d"

function show_nat :: "nat \<Rightarrow> string" where
  "show_nat n = (if n < 10 then [show_digit n] else show_nat (n div 10) @ [show_digit (n mod 10)])"
  by pat_completeness auto
termination
  by (relation "measure (\<lambda>n. n)") auto

declare show_nat.simps [simp del]

text \<open>\<^verbatim>\<open>stream << int\<close>: decimal digits, a minus sign before a negative number.\<close>

definition show_int :: "int \<Rightarrow> string" where
  "show_int i = (if i < 0 then CHR ''-'' # show_nat (nat (- i)) else show_nat (nat i))"

definition printScalar :: "('a::zero \<Rightarrow> string) \<Rightarrow> 'a Matrix \<Rightarrow> string \<Rightarrow> error + string" where
  "printScalar render M stream =
     (if numel M \<noteq> 1 then Inl (CasadiException ''operator=: argument not scalar'')
      else
        (case getElement M 0 0 of
           Inl e \<Rightarrow> Inl e
         | Inr v \<Rightarrow> Inr (stream @ render v)))"

text \<open>\<^verbatim>\<open>for(int i=1; i<size1(); i++) stream << "," << (*this)(i);\<close> from \<open>i\<close> on.\<close>

function printVector_loop ::
  "('a::zero \<Rightarrow> string) \<Rightarrow> 'a Matrix \<Rightarrow> int \<Rightarrow> string \<Rightarrow> error + string" where
  "printVector_loop render M i stream =
     (if i < size1 M then
        (case getElement M i 0 of
           Inl e \<Rightarrow> Inl e
         | Inr v \<Rightarrow> printVector_loop render M (i + 1) (stream @ '','' @ render v))
      else Inr stream)"
  by pat_completeness auto
termination
  by (relation "measure (\<lambda>(render, M, i, stream). nat (size1 M - i))") auto

declare printVector_loop.simps [simp del]

definition printVector :: "('a::zero \<Rightarrow> string) \<Rightarrow> 'a Matrix \<Rightarrow> string \<Rightarrow> error + string" where
  "printVector render M stream =
     (let s1 = stream @ ''['' @ show_int (size1 M) @ '']('' in
      case getElement M 0 0 of
        Inl e \<Rightarrow> Inl e
      | Inr v \<Rightarrow>
          (case printVector_loop render M 1 (s1 @ render v) of
             Inl e \<Rightarrow> Inl e
           | Inr s2 \<Rightarrow> Inr (s2 @ '')'')))"

text \<open>\<^verbatim>\<open>for(int j=1; j<size2(); j++) stream << "," << (*this)(i,j);\<close> from \<open>j\<close> on.\<close>

function printMatrix_cols ::
  "('a::zero \<Rightarrow> string) \<Rightarrow> 'a Matrix \<Rightarrow> int \<Rightarrow> int \<Rightarrow> string \<Rightarrow> error + string" where
  "printMatrix_cols render M i j stream =
     (if j < size2 M then
        (case getElement M i j of
           Inl e \<Rightarrow> Inl e
         | Inr v \<Rightarrow> printMatrix_cols render M i (j + 1) (stream @ '','' @ render v))
      else Inr stream)"
  by pat_completeness auto
termination
  by (relation "measure (\<lambda>(render, M, i, j, stream). nat (size2 M - j))") auto

declare printMatrix_cols.simps [simp del]

text \<open>The loop over the rows after the first, from \<open>i\<close> on.\<close>

function printMatrix_rows ::
  "('a::zero \<Rightarrow> string) \<Rightarrow> 'a Matrix \<Rightarrow> int \<Rightarrow> string \<Rightarrow> error + string" where
  "printMatrix_rows render M i stream =
     (if i < size1 M then
        (case getElement M i 0 of
           Inl e \<Rightarrow> Inl e
         | Inr v \<Rightarrow>
             (case printMatrix_cols render M i 1 (stream @ '',('' @ render v) of
                Inl e \<Rightarrow> Inl e
              | Inr s \<Rightarrow> printMatrix_rows render M (i + 1) (s @ '')'')))
      else Inr stream)"
  by pat_completeness auto
termination
  by (relation "measure (\<lambda>(render, M, i, stream). nat (size1 M - i))") auto

declare printMatrix_rows.simps [simp del]

definition printMatrix :: "('a::zero \<Rightarrow> string) \<Rightarrow> 'a Matrix \<Rightarrow> string \<Rightarrow> error + string" where
  "printMatrix render M stream =
     (let s1 = stream @ ''['' @ show_int (size1 M) @ '','' @ show_int (size2 M) @ '']'' @ ''(('' in
      case getElement M 0 0 of
        Inl e \<Rightarrow> Inl e
      | Inr v \<Rightarrow>
          (case printMatrix_cols render M 0 1 (s1 @ render v) of
             Inl e \<Rightarrow> Inl e
           | Inr s2 \<Rightarrow>
               (case printMatrix_rows render M 1 (s2 @ '')'') of
                  Inl e \<Rightarrow> Inl e
                | Inr s3 \<Rightarrow> Inr (s3 @ '')''))))"

definition print :: "('a::zero \<Rightarrow> string) \<Rightarrow> 'a Matrix \<Rightarrow> string \<Rightarrow> error + string" where
  "print render M stream =
     (if empty M then Inr (stream @ ''<empty expression>'')
      else if numel M = 1 then printScalar render M stream
      else if size2 M = 1 then printVector render M stream
      else printMatrix render M stream)"

section \<open>What the specification says about the class\<close>

subsection \<open>The sparsity pattern and the invariant\<close>

text \<open>The part \<open>[lo, hi)\<close> of a vector.\<close>

definition slice :: "'a list \<Rightarrow> int \<Rightarrow> int \<Rightarrow> 'a list" where
  "slice xs lo hi = take (nat (hi - lo)) (drop (nat lo) xs)"

text \<open>The columns and the values stored for row \<open>i\<close>.\<close>

definition row_cols :: "'a Matrix \<Rightarrow> int \<Rightarrow> int list" where
  "row_cols M i = slice (col M) (rowind M ! nat i) (rowind M ! nat (i + 1))"

definition row_vals :: "'a Matrix \<Rightarrow> int \<Rightarrow> 'a list" where
  "row_vals M i = slice (data M) (rowind M ! nat i) (rowind M ! nat (i + 1))"

text \<open>
  The number of columns of a row that are smaller than \<open>j\<close> and come before any that is
  not: where the scan of the row for \<open>j\<close> stops.
\<close>

definition row_pos :: "int list \<Rightarrow> int \<Rightarrow> nat" where
  "row_pos S j = length (takeWhile (\<lambda>c. c < j) S)"

text \<open>A coordinate is in the sparsity pattern when its column is stored for its row.\<close>

definition stored :: "'a Matrix \<Rightarrow> int \<Rightarrow> int \<Rightarrow> bool" where
  "stored M i j \<longleftrightarrow> j \<in> set (row_cols M i)"

text \<open>
  The matrix as a mapping from coordinates to values: the value stored for the
  coordinate, and zero for a coordinate that is not stored.
\<close>

definition entry :: "'a::zero Matrix \<Rightarrow> int \<Rightarrow> int \<Rightarrow> 'a" where
  "entry M i j =
     (case map_of (zip (row_cols M i) (row_vals M i)) j of None \<Rightarrow> 0 | Some v \<Rightarrow> v)"

definition in_bounds :: "'a Matrix \<Rightarrow> int \<Rightarrow> int \<Rightarrow> bool" where
  "in_bounds M i j \<longleftrightarrow> 0 \<le> i \<and> i < nrow M \<and> 0 \<le> j \<and> j < ncol M"

text \<open>
  The invariant of the representation: \<open>rowind\<close> has \<open>nrow + 1\<close> entries, starts at 0,
  ends at the number of stored entries, which is the length of \<open>data\<close> and of \<open>col\<close>,
  does not decrease, and the columns of every row increase strictly.
\<close>

definition invariant :: "'a Matrix \<Rightarrow> bool" where
  "invariant M \<longleftrightarrow>
     0 \<le> nrow M \<and>
     int (length (rowind M)) = nrow M + 1 \<and>
     rowind M ! 0 = 0 \<and>
     rowind M ! nat (nrow M) = int (length (data M)) \<and>
     length (data M) = length (col M) \<and>
     sorted (rowind M) \<and>
     (\<forall>i \<in> {0..<nrow M}. sorted_wrt (<) (row_cols M i))"

text \<open>
  The position in \<open>data\<close> and \<open>col\<close> at which the scan of row \<open>i\<close> for column
  \<open>j\<close> stops, and the matrix with a zero entry for \<open>(i, j)\<close> put in at that position.
\<close>

definition slot :: "'a Matrix \<Rightarrow> int \<Rightarrow> int \<Rightarrow> int" where
  "slot M i j = rowind M ! nat i + int (row_pos (row_cols M i) j)"

definition inserted :: "'a::zero Matrix \<Rightarrow> int \<Rightarrow> int \<Rightarrow> 'a Matrix" where
  "inserted M i j =
     (let k = nat (slot M i j) in
      M\<lparr>data := take k (data M) @ 0 # drop k (data M),
        col := take k (col M) @ j # drop k (col M),
        rowind := take (nat (i + 1)) (rowind M) @ map (\<lambda>r. r + 1) (drop (nat (i + 1)) (rowind M))\<rparr>)"

text \<open>
  The dense matrix of shape \<open>(n, m)\<close> with the values \<open>vals\<close> in row-major order: the
  columns of every row are \<open>0, \<dots>, m - 1\<close> and row \<open>i\<close> starts at \<open>i * m\<close>.
\<close>

definition dense :: "int \<Rightarrow> int \<Rightarrow> 'a list \<Rightarrow> 'a Matrix" where
  "dense n m vals =
     \<lparr>data = vals, col = concat (replicate (nat n) [0..m - 1]),
      rowind = map (\<lambda>i. i * m) [0..n], nrow = n, ncol = m\<rparr>"

text \<open>Every stored column is a column of the matrix.\<close>

definition cols_in_range :: "'a Matrix \<Rightarrow> bool" where
  "cols_in_range M \<longleftrightarrow> 0 \<le> ncol M \<and> (\<forall>c \<in> set (col M). 0 \<le> c \<and> c < ncol M)"

text \<open>No stored column is negative.\<close>

definition cols_not_negative :: "'a Matrix \<Rightarrow> bool" where
  "cols_not_negative M \<longleftrightarrow> (\<forall>c \<in> set (col M). 0 \<le> c)"

subsection \<open>Sequences of operations\<close>

text \<open>
  The constructors and the calls that the specification lists as public operations. A
  call of \<^verbatim>\<open>getElementRef\<close> may assign a value through the reference it returns.
\<close>

datatype ('a, 'b) ctor =
    New
  | New_empty int int
  | New_dense int int 'a
  | New_scalar 'a
  | New_vector "'b list"
  | New_vector_shaped "'b list" int int

datatype 'a call =
    Call_getElement int int
  | Call_getElementRef int int "'a option"
  | Call_makeEmpty int int
  | Call_makeDense int int 'a

fun construct :: "('b \<Rightarrow> 'a) \<Rightarrow> ('a::{zero,one}, 'b) ctor \<Rightarrow> error + 'a Matrix" where
  "construct conv New = Matrix_default"
| "construct conv (New_empty n m) = Matrix_empty n m"
| "construct conv (New_dense n m val) = Matrix_dense n m val"
| "construct conv (New_scalar val) = Matrix_scalar val"
| "construct conv (New_vector x) = Matrix_vector conv x"
| "construct conv (New_vector_shaped x n m) = Matrix_vector_shaped conv x n m"

text \<open>
  A shape is valid when it is not negative and \<open>m\<close> and \<open>n + 1\<close> (the length of
  \<open>rowind\<close>) are values of the type \<^verbatim>\<open>int\<close>. A dense matrix of the shape can be built
  when \<open>n * m\<close> is a value of the type as well. A sequence is valid for a shape when it has
  the length of the shape.
\<close>

definition valid_shape :: "int \<Rightarrow> int \<Rightarrow> bool" where
  "valid_shape n m \<longleftrightarrow> 0 \<le> n \<and> n < INT_MAX \<and> 0 \<le> m \<and> m \<le> INT_MAX"

definition valid_dense_shape :: "int \<Rightarrow> int \<Rightarrow> bool" where
  "valid_dense_shape n m \<longleftrightarrow> valid_shape n m \<and> n * m \<le> INT_MAX"

fun ctor_valid :: "('a, 'b) ctor \<Rightarrow> bool" where
  "ctor_valid New = True"
| "ctor_valid (New_empty n m) = valid_shape n m"
| "ctor_valid (New_dense n m val) = valid_dense_shape n m"
| "ctor_valid (New_scalar val) = True"
| "ctor_valid (New_vector x) = valid_dense_shape (int (length x)) 1"
| "ctor_valid (New_vector_shaped x n m) = (valid_dense_shape n m \<and> int (length x) = n * m)"

fun do_call :: "'a::zero call \<Rightarrow> 'a Matrix \<Rightarrow> error + 'a Matrix" where
  "do_call (Call_getElement i j) M =
     (case getElement M i j of Inl e \<Rightarrow> Inl e | Inr v \<Rightarrow> Inr M)"
| "do_call (Call_getElementRef i j a) M =
     (case getElementRef M i j of
        (Inl e, _) \<Rightarrow> Inl e
      | (Inr k, M') \<Rightarrow> Inr (case a of None \<Rightarrow> M' | Some v \<Rightarrow> assign_ref M' k v))"
| "do_call (Call_makeEmpty n m) M = constructed (makeEmpty n m M)"
| "do_call (Call_makeDense n m val) M = constructed (makeDense n m val M)"

text \<open>
  A call of \<open>getElement\<close> or \<open>getElementRef\<close> is valid for a coordinate within the
  shape; \<open>getElementRef\<close> may add one to the offsets in \<open>rowind\<close>, so the number of
  stored entries is to be below the maximum of \<^verbatim>\<open>int\<close>.
\<close>

fun call_valid :: "'a Matrix \<Rightarrow> 'a call \<Rightarrow> bool" where
  "call_valid M (Call_getElement i j) = in_bounds M i j"
| "call_valid M (Call_getElementRef i j a) =
     (in_bounds M i j \<and> int (length (data M)) < INT_MAX)"
| "call_valid M (Call_makeEmpty n m) = valid_shape n m"
| "call_valid M (Call_makeDense n m val) = valid_dense_shape n m"

text \<open>A sequence of calls, stopping at the first one that fails.\<close>

fun run :: "'a::zero call list \<Rightarrow> 'a Matrix \<Rightarrow> error + 'a Matrix" where
  "run [] M = Inr M"
| "run (c # cs) M = (case do_call c M of Inl e \<Rightarrow> Inl e | Inr M' \<Rightarrow> run cs M')"

text \<open>Every call of the sequence is valid for the matrix it is made on.\<close>

fun valid_run :: "'a::zero Matrix \<Rightarrow> 'a call list \<Rightarrow> bool" where
  "valid_run M [] = True"
| "valid_run M (c # cs) =
     (call_valid M c \<and> (case do_call c M of Inl e \<Rightarrow> True | Inr M' \<Rightarrow> valid_run M' cs))"

subsection \<open>The text that printing is to produce\<close>

fun join :: "string \<Rightarrow> string list \<Rightarrow> string" where
  "join sep [] = []"
| "join sep [x] = x"
| "join sep (x # y # ys) = x @ sep @ join sep (y # ys)"

text \<open>
  The four formats of the specification, by shape; the values are those of the matrix as
  a mapping.
\<close>

definition print_spec :: "('a::zero \<Rightarrow> string) \<Rightarrow> 'a Matrix \<Rightarrow> string" where
  "print_spec render M =
     (if nrow M * ncol M = 0 then ''<empty expression>''
      else if nrow M * ncol M = 1 then render (entry M 0 0)
      else if ncol M = 1 then
        ''['' @ show_int (nrow M) @ '']('' @
        join '','' (map (\<lambda>i. render (entry M i 0)) [0..nrow M - 1]) @ '')''
      else
        ''['' @ show_int (nrow M) @ '','' @ show_int (ncol M) @ '']'' @ ''('' @
        join '',''
          (map (\<lambda>i. ''('' @ join '','' (map (\<lambda>j. render (entry M i j)) [0..ncol M - 1]) @ '')'')
             [0..nrow M - 1]) @
        '')'')"

section \<open>Properties\<close>

subsection \<open>Slices\<close>

lemma slice_Cons:
  assumes "0 \<le> lo" "lo < hi" "lo < int (length xs)"
  shows "slice xs lo hi = xs ! nat lo # slice xs (lo + 1) hi"
proof -
  from assms have n: "nat lo < length xs" by linarith
  have h: "nat (hi - lo) = Suc (nat (hi - (lo + 1)))" using assms by linarith
  have d: "drop (nat lo) xs = xs ! nat lo # drop (nat (lo + 1)) xs"
    using n assms by (simp add: Cons_nth_drop_Suc nat_add_distrib)
  show ?thesis unfolding slice_def h d by simp
qed

lemma slice_Nil: "hi \<le> lo \<Longrightarrow> slice xs lo hi = []"
  by (simp add: slice_def)

lemma length_slice:
  "0 \<le> lo \<Longrightarrow> lo \<le> hi \<Longrightarrow> hi \<le> int (length xs) \<Longrightarrow> length (slice xs lo hi) = nat (hi - lo)"
  by (simp add: slice_def)

lemma nth_slice:
  "0 \<le> lo \<Longrightarrow> hi \<le> int (length xs) \<Longrightarrow> p < nat (hi - lo) \<Longrightarrow>
   slice xs lo hi ! p = xs ! (nat lo + p)"
  by (simp add: slice_def) 

subsection \<open>The position at which the scan of a row stops\<close>

lemma row_pos_le: "row_pos S j \<le> length S"
  by (simp add: row_pos_def length_takeWhile_le)

lemma row_pos_Nil: "row_pos [] j = 0"
  by (simp add: row_pos_def)

lemma row_pos_Cons: "row_pos (c # S) j = (if c < j then Suc (row_pos S j) else 0)"
  by (simp add: row_pos_def)

lemma getElementRef_loop_eq:
  "0 \<le> ind \<Longrightarrow> hi \<le> int (length cs) \<Longrightarrow>
   getElementRef_loop cs j ind hi =
     Inr (let S = slice cs ind hi; p = row_pos S j in
          if p < length S \<and> S ! p = j then Found (ind + int p) else Absent (ind + int p))"
proof (induction cs j ind hi rule: getElementRef_loop.induct)
  case (1 cs j ind hi)
  show ?case
  proof (cases "ind < hi")
    case False
    then show ?thesis
      by (subst getElementRef_loop.simps) (simp add: slice_Nil row_pos_Nil)
  next
    case run: True
    with "1.prems" have lt: "ind < int (length cs)" by simp
    have vi: "vector_index cs ind = Inr (cs ! nat ind)"
      using "1.prems" lt by (simp add: vector_index_def)
    have sl: "slice cs ind hi = cs ! nat ind # slice cs (ind + 1) hi"
      using "1.prems" run lt by (intro slice_Cons) auto
    show ?thesis
    proof (cases "cs ! nat ind = j")
      case eq: True
      show ?thesis
        by (subst getElementRef_loop.simps) (simp add: run vi sl eq row_pos_Cons)
    next
      case ne: False
      show ?thesis
      proof (cases "cs ! nat ind > j")
        case gt: True
        then have nl: "\<not> cs ! nat ind < j" by simp
        show ?thesis
          by (subst getElementRef_loop.simps) (simp add: run vi sl ne gt nl row_pos_Cons Let_def)
      next
        case ngt: False
        then have less: "cs ! nat ind < j" using ne by simp
        have ih: "getElementRef_loop cs j (ind + 1) hi =
           Inr (let S = slice cs (ind + 1) hi; p = row_pos S j in
          if p < length S \<and> S ! p = j then Found (ind + 1 + int p) else Absent (ind + 1 + int p))"
          using "1.IH"[OF run vi ne ngt] "1.prems" by simp
        show ?thesis
          by (subst getElementRef_loop.simps)
             (simp add: run vi sl ne ngt less ih row_pos_Cons Let_def)
      qed
    qed
  qed
qed

lemma getElement_loop_eq:
  "0 \<le> ind \<Longrightarrow> hi \<le> int (length cs) \<Longrightarrow>
   getElement_loop cs vs j ind hi =
     (let S = slice cs ind hi; p = row_pos S j in
      if p < length S \<and> S ! p = j then vector_at vs (ind + int p) else Inr 0)"
proof (induction cs vs j ind hi rule: getElement_loop.induct)
  case (1 cs vs j ind hi)
  show ?case
  proof (cases "ind < hi")
    case False
    then show ?thesis
      by (subst getElement_loop.simps) (simp add: slice_Nil row_pos_Nil)
  next
    case run: True
    with "1.prems" have lt: "ind < int (length cs)" by simp
    have vi: "vector_index cs ind = Inr (cs ! nat ind)"
      using "1.prems" lt by (simp add: vector_index_def)
    have sl: "slice cs ind hi = cs ! nat ind # slice cs (ind + 1) hi"
      using "1.prems" run lt by (intro slice_Cons) auto
    show ?thesis
    proof (cases "cs ! nat ind = j")
      case eq: True
      show ?thesis
        by (subst getElement_loop.simps) (simp add: run vi sl eq row_pos_Cons)
    next
      case ne: False
      show ?thesis
      proof (cases "cs ! nat ind > j")
        case gt: True
        then have nl: "\<not> cs ! nat ind < j" by simp
        show ?thesis
          by (subst getElement_loop.simps) (simp add: run vi sl ne gt nl row_pos_Cons Let_def)
      next
        case ngt: False
        then have less: "cs ! nat ind < j" using ne by simp
        have ih: "getElement_loop cs vs j (ind + 1) hi =
           (let S = slice cs (ind + 1) hi; p = row_pos S j in
            if p < length S \<and> S ! p = j then vector_at vs (ind + 1 + int p) else Inr 0)"
          using "1.IH"[OF run vi ne ngt] "1.prems" by simp
        have ar: "ind + (1 + int p) = ind + 1 + int p" for p by simp
        show ?thesis
          by (subst getElement_loop.simps)
             (simp add: run vi sl ne ngt less ih row_pos_Cons Let_def ar)
      qed
    qed
  qed
qed

lemma rowind_loop_eq:
  "0 \<le> row \<Longrightarrow> int (length rs) = n + 1 \<Longrightarrow>
   rowind_loop rs row n = Inr (take (nat row) rs @ map (\<lambda>r. r + 1) (drop (nat row) rs))"
proof (induction rs row n rule: rowind_loop.induct)
  case (1 rs row n)
  show ?case
  proof (cases "row < n + 1")
    case False
    then show ?thesis using "1.prems"
      by (subst rowind_loop.simps) simp
  next
    case run: True
    with "1.prems" have lt: "nat row < length rs" by linarith
    have vi: "vector_index rs row = Inr (rs ! nat row)"
      using "1.prems" run by (simp add: vector_index_def)
    have va: "vector_assign rs row (rs ! nat row + 1) = Inr (rs[nat row := rs ! nat row + 1])"
      using "1.prems" run by (simp add: vector_assign_def)
    have ih: "rowind_loop (rs[nat row := rs ! nat row + 1]) (row + 1) n =
       Inr (take (nat (row + 1)) (rs[nat row := rs ! nat row + 1]) @
            map (\<lambda>r. r + 1) (drop (nat (row + 1)) (rs[nat row := rs ! nat row + 1])))"
      using "1.IH"[OF run vi va] "1.prems" by simp
    have s: "nat (row + 1) = Suc (nat row)" using "1.prems" by linarith
    have "take (Suc (nat row)) (rs[nat row := rs ! nat row + 1]) @
            map (\<lambda>r. r + 1) (drop (Suc (nat row)) (rs[nat row := rs ! nat row + 1]))
          = take (nat row) rs @ map (\<lambda>r. r + 1) (drop (nat row) rs)"
      using lt by (simp add: take_Suc_conv_app_nth Cons_nth_drop_Suc [symmetric])
    moreover have "row \<le> n" using run by simp
    ultimately show ?thesis
      by (subst rowind_loop.simps) (simp add: vi va ih s)
  qed
qed

subsection \<open>Rows as lists\<close>

lemma row_pos_take: "\<forall>c \<in> set (take (row_pos S j) S). c < j"
  unfolding row_pos_def by (metis set_takeWhileD takeWhile_eq_take)

lemma row_pos_nth: "row_pos S j < length S \<Longrightarrow> j \<le> S ! row_pos S j"
  unfolding row_pos_def using nth_length_takeWhile[of "\<lambda>c. c < j" S] by simp

lemma row_pos_sorted_drop:
  assumes "sorted_wrt (<) S" "c \<in> set (drop (row_pos S j) S)"
  shows "j \<le> c"
  using assms
proof (induction S)
  case Nil
  then show ?case by simp
next
  case (Cons a S)
  show ?case
  proof (cases "a < j")
    case True
    with Cons show ?thesis by (simp add: row_pos_Cons)
  next
    case False
    with Cons.prems have "c = a \<or> c \<in> set S" by (simp add: row_pos_Cons)
    with Cons.prems False show ?thesis by auto
  qed
qed

lemma row_pos_insert:
  "row_pos (take (row_pos S j) S @ j # ys) j = row_pos S j"
proof -
  have "takeWhile (\<lambda>c. c < j) (take (row_pos S j) S @ j # ys) = take (row_pos S j) S"
    using row_pos_take[of S j] by (simp add: takeWhile_append2)
  then show ?thesis
    unfolding row_pos_def by (metis takeWhile_eq_take)
qed

lemma sorted_row_insert:
  assumes "sorted_wrt (<) S" "\<not> (row_pos S j < length S \<and> S ! row_pos S j = j)"
  shows "sorted_wrt (<) (take (row_pos S j) S @ j # drop (row_pos S j) S)"
proof -
  let ?p = "row_pos S j"
  have S: "S = take ?p S @ drop ?p S" by simp
  have s1: "sorted_wrt (<) (take ?p S)" and s2: "sorted_wrt (<) (drop ?p S)"
    using assms(1) sorted_wrt_take sorted_wrt_drop by blast+
  have lt: "\<forall>c \<in> set (take ?p S). c < j" by (rule row_pos_take)
  have gt: "j < c" if c: "c \<in> set (drop ?p S)" for c
  proof -
    have le: "j \<le> c" using row_pos_sorted_drop[OF assms(1) c] .
    from c have p: "?p < length S" by (cases "?p < length S") auto
    with assms(2) have ne: "S ! ?p \<noteq> j" by simp
    have hd: "drop ?p S = S ! ?p # drop (Suc ?p) S" using p by (simp add: Cons_nth_drop_Suc)
    show ?thesis
    proof (cases "c = S ! ?p")
      case True
      with le ne show ?thesis by simp
    next
      case False
      with c hd have "c \<in> set (drop (Suc ?p) S)" by auto
      moreover have "sorted_wrt (<) (S ! ?p # drop (Suc ?p) S)" using s2 hd by simp
      ultimately have "S ! ?p < c" by auto
      moreover have "j \<le> S ! ?p" using row_pos_nth[OF p] .
      ultimately show ?thesis by simp
    qed
  qed
  have cross: "\<forall>x \<in> set (take ?p S). \<forall>y \<in> set (drop ?p S). x < y"
    using assms(1) S by (metis sorted_wrt_append)
  show ?thesis
    using s1 s2 lt gt cross by (auto simp: sorted_wrt_append)
qed

lemma scan_map_of:
  "sorted_wrt (<) S \<Longrightarrow> length V = length S \<Longrightarrow>
   (if row_pos S j < length S \<and> S ! row_pos S j = j then Some (V ! row_pos S j) else None)
     = map_of (zip S V) j"
proof (induction S arbitrary: V)
  case Nil
  then show ?case by (simp add: row_pos_Nil)
next
  case (Cons a S)
  then obtain v V' where V: "V = v # V'" by (cases V) auto
  with Cons.prems have len: "length V' = length S" by simp
  from Cons.prems have srt: "sorted_wrt (<) S" and all: "\<forall>c \<in> set S. a < c" by auto
  show ?case
  proof (cases "a < j")
    case True
    then have ne: "a \<noteq> j" "j \<noteq> a" by simp_all
    show ?thesis
      by (simp add: V row_pos_Cons True ne Cons.IH[OF srt len, symmetric])
  next
    case False
    show ?thesis
    proof (cases "a = j")
      case True
      then show ?thesis by (simp add: V row_pos_Cons)
    next
      case ne: False
      with False have "a > j" by simp
      with all have "j \<notin> set S" by auto
      moreover have "fst ` set (zip S V') = set S"
        using len by (simp add: set_map [symmetric] del: set_map)
      ultimately have "map_of (zip S V') j = None"
        by (simp add: map_of_eq_None_iff)
      then show ?thesis using False ne by (simp add: V row_pos_Cons)
    qed
  qed
qed

lemma row_pos_mem:
  assumes "sorted_wrt (<) S"
  shows "j \<in> set S \<longleftrightarrow> row_pos S j < length S \<and> S ! row_pos S j = j"
proof
  assume "row_pos S j < length S \<and> S ! row_pos S j = j"
  then show "j \<in> set S" by (metis nth_mem)
next
  assume j: "j \<in> set S"
  let ?p = "row_pos S j"
  have "set S = set (take ?p S) \<union> set (drop ?p S)"
    by (metis append_take_drop_id set_append)
  with j row_pos_take[of S j] have d: "j \<in> set (drop ?p S)" by auto
  then have p: "?p < length S" by (cases "?p < length S") auto
  have hd: "drop ?p S = S ! ?p # drop (Suc ?p) S" using p by (simp add: Cons_nth_drop_Suc)
  have "sorted_wrt (<) (S ! ?p # drop (Suc ?p) S)"
    using assms sorted_wrt_drop[of "(<)" S ?p] hd by simp
  with d hd have "S ! ?p \<le> j" by auto
  with row_pos_nth[OF p] show "?p < length S \<and> S ! ?p = j" using p by simp
qed

subsection \<open>Slices of a vector after an insertion\<close>

lemma take_insert_before:
  assumes "b \<le> k" "k \<le> length xs"
  shows "take b (take k xs @ zs) = take b xs"
proof -
  have "take b (take k xs @ zs) = take b (take k xs)" using assms by simp
  also have "\<dots> = take b xs" using assms by (simp add: min_def)
  finally show ?thesis .
qed

lemma drop_insert_after:
  assumes "k \<le> a" "k \<le> length xs"
  shows "drop (Suc a) (take k xs @ x # drop k xs) = drop a xs"
proof -
  have l: "length (take k xs) = k" using assms by simp
  have "drop (Suc a) (take k xs @ x # drop k xs) = drop (Suc a - k) (x # drop k xs)"
    using assms by (simp add: l)
  also have "Suc a - k = Suc (a - k)" using assms by simp
  also have "drop (Suc (a - k)) (x # drop k xs) = drop (a - k + k) xs" by simp
  also have "a - k + k = a" using assms by simp
  finally show ?thesis .
qed

lemma slice_nat: "0 \<le> a \<Longrightarrow> slice xs a b = drop (nat a) (take (nat b) xs)"
proof (cases "a \<le> b")
  case True
  assume "0 \<le> a"
  with True have "nat (b - a) = nat b - nat a" by linarith
  then show ?thesis by (simp add: slice_def drop_take)
next
  case False
  assume "0 \<le> a"
  with False have "nat b \<le> nat a" by linarith
  with False show ?thesis by (simp add: slice_def)
qed

lemma slice_insert_before:
  assumes "0 \<le> a" "b \<le> int k" "k \<le> length xs"
  shows "slice (take k xs @ x # drop k xs) a b = slice xs a b"
proof -
  have "nat b \<le> k" using assms by linarith
  then show ?thesis
    using assms by (simp add: slice_nat take_insert_before del: take_append)
qed

lemma slice_insert_after:
  assumes "int k \<le> a" "k \<le> length xs"
  shows "slice (take k xs @ x # drop k xs) (a + 1) (b + 1) = slice xs a b"
proof -
  have "nat (a + 1) = Suc (nat a)" "k \<le> nat a" using assms by linarith+
  then show ?thesis
    using assms by (simp add: slice_def drop_insert_after del: drop_append)
qed

lemma slice_insert_inside:
  assumes "0 \<le> a" "a \<le> int k" "int k \<le> b" "b \<le> int (length xs)"
  shows "slice (take k xs @ x # drop k xs) a (b + 1) =
         take (k - nat a) (slice xs a b) @ x # drop (k - nat a) (slice xs a b)"
proof -
  let ?a = "nat a" and ?b = "nat b"
  have ab: "?a \<le> k" "k \<le> ?b" "?b \<le> length xs" using assms by linarith+
  have n: "nat (b + 1 - a) = Suc (?b - ?a)" "nat (b - a) = ?b - ?a" using assms by linarith+
  have lk: "length (take k xs) = k" using ab by simp
  have d: "drop ?a (take k xs @ x # drop k xs) = drop ?a (take k xs) @ x # drop k xs"
    using ab by (simp add: lk)
  have l: "length (drop ?a (take k xs)) = k - ?a" using ab by simp
  have e: "Suc (?b - ?a) - (k - ?a) = Suc (?b - k)" using ab by simp
  have t: "take (Suc (?b - ?a)) (drop ?a (take k xs) @ x # drop k xs)
        = drop ?a (take k xs) @ x # take (?b - k) (drop k xs)"
  proof -
    define L where "L = drop ?a (take k xs)"
    have lL: "length L = k - ?a" using l by (simp add: L_def)
    have "take (Suc (?b - ?a)) (L @ x # drop k xs) = L @ take (Suc (?b - ?a) - (k - ?a)) (x # drop k xs)"
      using ab by (simp add: lL)
    then show ?thesis unfolding e L_def by simp
  qed
  have t1: "take (k - ?a) (take (?b - ?a) (drop ?a xs)) = drop ?a (take k xs)"
  proof -
    have "min (k - ?a) (?b - ?a) = k - ?a" using ab by simp
    then show ?thesis by (simp add: drop_take)
  qed
  have t2: "drop (k - ?a) (take (?b - ?a) (drop ?a xs)) = take (?b - k) (drop k xs)"
  proof -
    have "?b - ?a - (k - ?a) = ?b - k" "k - ?a + ?a = k" using ab by simp_all
    then show ?thesis by (simp add: drop_take)
  qed
  show ?thesis
    unfolding slice_def n d t t1 t2 ..
qed

subsection \<open>What the invariant says about a row\<close>

lemma invariant_rowind_mono:
  assumes "invariant M" "0 \<le> a" "a \<le> b" "b \<le> nrow M"
  shows "rowind M ! nat a \<le> rowind M ! nat b"
proof -
  from assms have "sorted (rowind M)" "nat b < length (rowind M)" "nat a \<le> nat b"
    by (auto simp: invariant_def)
  then show ?thesis by (simp add: sorted_iff_nth_mono)
qed

lemma invariant_row_bounds:
  assumes "invariant M" "0 \<le> i" "i < nrow M"
  shows "0 \<le> rowind M ! nat i"
    and "rowind M ! nat i \<le> rowind M ! nat (i + 1)"
    and "rowind M ! nat (i + 1) \<le> int (length (col M))"
    and "rowind M ! nat (i + 1) \<le> int (length (data M))"
proof -
  have z: "rowind M ! nat 0 = 0" and e: "rowind M ! nat (nrow M) = int (length (data M))"
    and l: "length (data M) = length (col M)"
    using assms(1) by (simp_all add: invariant_def)
  show "0 \<le> rowind M ! nat i"
    using invariant_rowind_mono[OF assms(1), of 0 i] assms z by simp
  show "rowind M ! nat i \<le> rowind M ! nat (i + 1)"
    using invariant_rowind_mono[OF assms(1), of i "i + 1"] assms by simp
  show "rowind M ! nat (i + 1) \<le> int (length (data M))"
    using invariant_rowind_mono[OF assms(1), of "i + 1" "nrow M"] assms e by simp
  then show "rowind M ! nat (i + 1) \<le> int (length (col M))" using l by simp
qed

lemma invariant_row_sorted:
  "invariant M \<Longrightarrow> 0 \<le> i \<Longrightarrow> i < nrow M \<Longrightarrow> sorted_wrt (<) (row_cols M i)"
  by (simp add: invariant_def)

lemma invariant_row_lengths:
  assumes "invariant M" "0 \<le> i" "i < nrow M"
  shows "length (row_cols M i) = nat (rowind M ! nat (i + 1) - rowind M ! nat i)"
    and "length (row_vals M i) = length (row_cols M i)"
  using invariant_row_bounds[OF assms]
  by (simp_all add: row_cols_def row_vals_def length_slice)

lemma invariant_rowind_at:
  assumes "invariant M" "0 \<le> i" "i \<le> nrow M"
  shows "vector_at (rowind M) i = Inr (rowind M ! nat i)"
    and "vector_index (rowind M) i = Inr (rowind M ! nat i)"
  using assms by (simp_all add: invariant_def vector_at_def vector_index_def)

subsection \<open>getElement reads the matrix as a mapping\<close>

lemma getElement_entry:
  assumes inv: "invariant M" and i: "0 \<le> i" "i < nrow M" and j: "j < ncol M"
  shows "getElement M i j = Inr (entry M i j)"
proof -
  let ?lo = "rowind M ! nat i" and ?hi = "rowind M ! nat (i + 1)"
  let ?S = "row_cols M i" and ?V = "row_vals M i"
  let ?p = "row_pos ?S j"
  note b = invariant_row_bounds[OF inv i]
  note len = invariant_row_lengths[OF inv i]
  have srt: "sorted_wrt (<) ?S" using invariant_row_sorted[OF inv i] .
  have g: "getElement M i j = getElement_loop (col M) (data M) j ?lo ?hi"
    using i j invariant_rowind_at[OF inv, of i] invariant_rowind_at[OF inv, of "i + 1"]
    by (simp add: getElement_def size1_def size2_def)
  have l: "getElement_loop (col M) (data M) j ?lo ?hi =
       (if ?p < length ?S \<and> ?S ! ?p = j then vector_at (data M) (?lo + int ?p) else Inr 0)"
    using getElement_loop_eq[OF b(1) b(3), of "data M" j]
    by (simp add: row_cols_def Let_def)
  have v: "vector_at (data M) (?lo + int ?p) = Inr (?V ! ?p)" if p: "?p < length ?S"
  proof -
    from p len have p': "?p < nat (?hi - ?lo)" by simp
    then have "?lo + int ?p < int (length (data M))" using b by linarith
    moreover have "?V ! ?p = data M ! (nat ?lo + ?p)"
      unfolding row_vals_def using nth_slice[OF b(1) b(4) p'] .
    moreover have "nat (?lo + int ?p) = nat ?lo + ?p" using b(1) by linarith
    ultimately show ?thesis using b(1) by (simp add: vector_at_def)
  qed
  have m: "map_of (zip ?S ?V) j = (if ?p < length ?S \<and> ?S ! ?p = j then Some (?V ! ?p) else None)"
    using scan_map_of[OF srt len(2), of j] by simp
  show ?thesis
    unfolding g l entry_def m using v by simp
qed

lemma fst_set_zip: "length V = length S \<Longrightarrow> fst ` set (zip S V) = set S"
  by (simp add: set_map [symmetric] del: set_map)

lemma entry_absent:
  assumes "invariant M" "0 \<le> i" "i < nrow M" "\<not> stored M i j"
  shows "entry M i j = 0"
proof -
  have "fst ` set (zip (row_cols M i) (row_vals M i)) = set (row_cols M i)"
    using invariant_row_lengths(2)[OF assms(1-3)] by (rule fst_set_zip)
  with assms(4) have "map_of (zip (row_cols M i) (row_vals M i)) j = None"
    by (simp add: map_of_eq_None_iff stored_def)
  then show ?thesis by (simp add: entry_def)
qed

lemma entry_stored:
  assumes inv: "invariant M" and i: "0 \<le> i" "i < nrow M"
    and k: "rowind M ! nat i \<le> k" "k < rowind M ! nat (i + 1)" "col M ! nat k = j"
  shows "entry M i j = data M ! nat k"
proof -
  let ?lo = "rowind M ! nat i" and ?hi = "rowind M ! nat (i + 1)"
  let ?S = "row_cols M i" and ?V = "row_vals M i"
  note b = invariant_row_bounds[OF inv i]
  note len = invariant_row_lengths[OF inv i]
  define q where "q = nat (k - ?lo)"
  have q: "q < nat (?hi - ?lo)" "nat ?lo + q = nat k" unfolding q_def using k b by linarith+
  have S: "?S ! q = j" 
    unfolding row_cols_def using nth_slice[OF b(1) b(3) q(1)] q(2) k(3) by simp
  have V: "?V ! q = data M ! nat k"
    unfolding row_vals_def using nth_slice[OF b(1) b(4) q(1)] q(2) by simp
  have "distinct ?S" using invariant_row_sorted[OF inv i] strict_sorted_iff by blast
  moreover have "q < length ?V" using q len by simp
  ultimately have "map_of (zip ?S ?V) (?S ! q) = Some (?V ! q)"
    using len(2) by (intro map_of_zip_nth) simp_all
  then show ?thesis by (simp add: entry_def S V)
qed

subsection \<open>What getElementRef does on a matrix that satisfies the invariant\<close>

lemma slot_bounds:
  assumes inv: "invariant M" and i: "0 \<le> i" "i < nrow M"
  shows "rowind M ! nat i \<le> slot M i j"
    and "slot M i j \<le> rowind M ! nat (i + 1)"
    and "0 \<le> slot M i j"
    and "slot M i j \<le> int (length (col M))"
    and "slot M i j \<le> int (length (data M))"
proof -
  note b = invariant_row_bounds[OF inv i]
  note len = invariant_row_lengths[OF inv i]
  have p: "row_pos (row_cols M i) j \<le> nat (rowind M ! nat (i + 1) - rowind M ! nat i)"
    using row_pos_le[of "row_cols M i" j] len by simp
  show "rowind M ! nat i \<le> slot M i j" by (simp add: slot_def)
  show "slot M i j \<le> rowind M ! nat (i + 1)" unfolding slot_def using p b by linarith
  then show "slot M i j \<le> int (length (col M))" "slot M i j \<le> int (length (data M))"
    using b by linarith+
  show "0 \<le> slot M i j" unfolding slot_def using b by linarith
qed

lemma getElementRef_loop_row:
  assumes inv: "invariant M" and i: "0 \<le> i" "i < nrow M"
  shows "getElementRef_loop (col M) j (rowind M ! nat i) (rowind M ! nat (i + 1)) =
           Inr (if stored M i j then Found (slot M i j) else Absent (slot M i j))"
proof -
  note b = invariant_row_bounds[OF inv i]
  have "stored M i j \<longleftrightarrow>
        row_pos (row_cols M i) j < length (row_cols M i) \<and>
        row_cols M i ! row_pos (row_cols M i) j = j"
    unfolding stored_def using row_pos_mem[OF invariant_row_sorted[OF inv i]] .
  then show ?thesis
    using getElementRef_loop_eq[OF b(1) b(3), of j]
    by (simp add: row_cols_def [symmetric] slot_def Let_def)
qed

lemma stored_slot:
  assumes inv: "invariant M" and i: "0 \<le> i" "i < nrow M" and s: "stored M i j"
  shows "slot M i j < rowind M ! nat (i + 1)" and "col M ! nat (slot M i j) = j"
proof -
  note b = invariant_row_bounds[OF inv i]
  note len = invariant_row_lengths[OF inv i]
  let ?p = "row_pos (row_cols M i) j"
  have p: "?p < length (row_cols M i)" "row_cols M i ! ?p = j"
    using s row_pos_mem[OF invariant_row_sorted[OF inv i], of j] by (simp_all add: stored_def)
  then have p': "?p < nat (rowind M ! nat (i + 1) - rowind M ! nat i)" using len by simp
  then show "slot M i j < rowind M ! nat (i + 1)" unfolding slot_def by linarith
  have "nat (slot M i j) = nat (rowind M ! nat i) + ?p" unfolding slot_def using b by linarith
  then show "col M ! nat (slot M i j) = j"
    using nth_slice[OF b(1) b(3) p'] p(2) by (simp add: row_cols_def)
qed

lemma getElementRef_eq:
  assumes inv: "invariant M" and i: "0 \<le> i" "i < nrow M" and j: "j < ncol M"
  shows "getElementRef M i j = (Inr (slot M i j), if stored M i j then M else inserted M i j)"
proof -
  note b = invariant_row_bounds[OF inv i]
  note sb = slot_bounds[OF inv i, of j]
  have r: "vector_index (rowind M) i = Inr (rowind M ! nat i)"
    "vector_index (rowind M) (i + 1) = Inr (rowind M ! nat (i + 1))"
    using invariant_rowind_at(2)[OF inv, of i] invariant_rowind_at(2)[OF inv, of "i + 1"] i
    by simp_all
  note l = getElementRef_loop_row[OF inv i, of j]
  have g: "\<not> (size1 M \<le> i \<or> size2 M \<le> j)" using i j by (simp add: size1_def size2_def)
  show ?thesis
  proof (cases "stored M i j")
    case True
    have "slot M i j < int (length (data M))"
      using stored_slot(1)[OF inv i True] b by linarith
    then have "vector_at_ref (data M) (slot M i j) = Inr (slot M i j)"
      using sb by (simp add: vector_at_ref_def)
    then show ?thesis
      unfolding getElementRef_def using g by (simp add: r l True)
  next
    case False
    let ?k = "nat (slot M i j)"
    have d: "vector_insert (data M) (slot M i j) 0 = Inr (take ?k (data M) @ 0 # drop ?k (data M))"
      using sb by (simp add: vector_insert_def)
    have c: "vector_insert (col M) (slot M i j) j = Inr (take ?k (col M) @ j # drop ?k (col M))"
      using sb by (simp add: vector_insert_def)
    have rl: "rowind_loop (rowind M) (i + 1) (size1 M) =
        Inr (take (nat (i + 1)) (rowind M) @ map (\<lambda>r. r + 1) (drop (nat (i + 1)) (rowind M)))"
      using inv i by (intro rowind_loop_eq) (simp_all add: invariant_def size1_def)
    have a: "vector_at_ref (take ?k (data M) @ 0 # drop ?k (data M)) (slot M i j) = Inr (slot M i j)"
      using sb by (simp add: vector_at_ref_def)
    show ?thesis
      unfolding getElementRef_def using g
      by (simp add: r l False d c rl a inserted_def Let_def)
  qed
qed

subsection \<open>The matrix after an insertion\<close>

lemma inserted_shape [simp]:
  "nrow (inserted M i j) = nrow M" "ncol (inserted M i j) = ncol M"
  by (simp_all add: inserted_def Let_def)

lemma inserted_rowind_nth:
  assumes inv: "invariant M" and i: "0 \<le> i" "i < nrow M" and r: "0 \<le> r" "r \<le> nrow M"
  shows "rowind (inserted M i j) ! nat r = (if r \<le> i then rowind M ! nat r else rowind M ! nat r + 1)"
proof -
  have len: "int (length (rowind M)) = nrow M + 1" using inv by (simp add: invariant_def)
  have l: "length (take (nat (i + 1)) (rowind M)) = nat (i + 1)" using len i by simp
  show ?thesis
  proof (cases "r \<le> i")
    case True
    then have "nat r < nat (i + 1)" using r by linarith
    then show ?thesis using True
      by (simp add: inserted_def Let_def nth_append l del: length_take)
  next
    case False
    then have a: "\<not> nat r < nat (i + 1)" using i by linarith
    have b: "nat r - nat (i + 1) < length (drop (nat (i + 1)) (rowind M))"
      using False len r i by simp
    have c: "nat (i + 1) + (nat r - nat (i + 1)) = nat r" using False i by linarith
    have "drop (nat (i + 1)) (rowind M) ! (nat r - nat (i + 1)) =
          rowind M ! (nat (i + 1) + (nat r - nat (i + 1)))"
      using len i by (intro nth_drop) simp
    then have d: "drop (nat (i + 1)) (rowind M) ! (nat r - nat (i + 1)) = rowind M ! nat r"
      unfolding c .
    show ?thesis using False a
      by (simp add: inserted_def Let_def nth_append l nth_map[OF b] d del: length_take nth_map nth_drop)
  qed
qed

lemma inserted_rows:
  assumes inv: "invariant M" and i: "0 \<le> i" "i < nrow M" and r: "0 \<le> r" "r < nrow M"
  shows "row_cols (inserted M i j) r =
           (if r = i then take (row_pos (row_cols M i) j) (row_cols M i) @ j #
                          drop (row_pos (row_cols M i) j) (row_cols M i)
            else row_cols M r)"
    and "row_vals (inserted M i j) r =
           (if r = i then take (row_pos (row_cols M i) j) (row_vals M i) @ 0 #
                          drop (row_pos (row_cols M i) j) (row_vals M i)
            else row_vals M r)"
proof -
  let ?k = "nat (slot M i j)"
  let ?M' = "inserted M i j"
  note sb = slot_bounds[OF inv i, of j]
  note br = invariant_row_bounds[OF inv r]
  note bi = invariant_row_bounds[OF inv i]
  have k: "int ?k = slot M i j" "?k \<le> length (col M)" "?k \<le> length (data M)"
    using sb by simp_all
  have lo: "rowind ?M' ! nat r = (if r \<le> i then rowind M ! nat r else rowind M ! nat r + 1)"
    using inserted_rowind_nth[OF inv i, of r j] r by simp
  have hi: "rowind ?M' ! nat (r + 1) =
      (if r + 1 \<le> i then rowind M ! nat (r + 1) else rowind M ! nat (r + 1) + 1)"
    using inserted_rowind_nth[OF inv i, of "r + 1" j] r by simp
  have c: "col ?M' = take ?k (col M) @ j # drop ?k (col M)"
    and d: "data ?M' = take ?k (data M) @ 0 # drop ?k (data M)"
    by (simp_all add: inserted_def Let_def)
  have p: "?k - nat (rowind M ! nat i) = row_pos (row_cols M i) j"
    unfolding slot_def using bi(1) by (simp add: nat_add_distrib)
  consider (before) "r < i" | (row) "r = i" | (after) "i < r" by linarith
  then have "row_cols ?M' r =
           (if r = i then take (row_pos (row_cols M i) j) (row_cols M i) @ j #
                          drop (row_pos (row_cols M i) j) (row_cols M i)
            else row_cols M r) \<and>
         row_vals ?M' r =
           (if r = i then take (row_pos (row_cols M i) j) (row_vals M i) @ 0 #
                          drop (row_pos (row_cols M i) j) (row_vals M i)
            else row_vals M r)"
  proof cases
    case before
    have "rowind M ! nat (r + 1) \<le> rowind M ! nat i"
      using invariant_rowind_mono[OF inv, of "r + 1" i] before r i by simp
    then have e: "rowind M ! nat (r + 1) \<le> int ?k" using sb k by linarith
    show ?thesis
      using before slice_insert_before[OF br(1) e k(2)] slice_insert_before[OF br(1) e k(3)]
      by (simp add: row_cols_def row_vals_def lo hi c d)
  next
    case row
    have e: "rowind M ! nat i \<le> int ?k" "int ?k \<le> rowind M ! nat (i + 1)"
      using sb k by linarith+
    have lo': "rowind ?M' ! nat i = rowind M ! nat i"
      and hi': "rowind ?M' ! nat (i + 1) = rowind M ! nat (i + 1) + 1"
      using lo hi row by simp_all
    show ?thesis
      unfolding row
      using slice_insert_inside[OF bi(1) e bi(3)] slice_insert_inside[OF bi(1) e bi(4)]
      by (simp add: row_cols_def row_vals_def lo' hi' c d p)
  next
    case after
    have "rowind M ! nat (i + 1) \<le> rowind M ! nat r"
      using invariant_rowind_mono[OF inv, of "i + 1" r] after r i by simp
    then have e: "int ?k \<le> rowind M ! nat r" using sb k by linarith
    show ?thesis
      using after slice_insert_after[OF e k(2)] slice_insert_after[OF e k(3)]
      by (simp add: row_cols_def row_vals_def lo hi c d)
  qed
  then show "row_cols (inserted M i j) r =
           (if r = i then take (row_pos (row_cols M i) j) (row_cols M i) @ j #
                          drop (row_pos (row_cols M i) j) (row_cols M i)
            else row_cols M r)"
    and "row_vals (inserted M i j) r =
           (if r = i then take (row_pos (row_cols M i) j) (row_vals M i) @ 0 #
                          drop (row_pos (row_cols M i) j) (row_vals M i)
            else row_vals M r)"
    by simp_all
qed

lemma sorted_map_Suc: "sorted xs \<Longrightarrow> sorted (map (\<lambda>r. r + (1::int)) xs)"
  by (induction xs) auto

lemma inserted_invariant:
  assumes inv: "invariant M" and i: "0 \<le> i" "i < nrow M" and ns: "\<not> stored M i j"
  shows "invariant (inserted M i j)"
proof -
  let ?M' = "inserted M i j"
  let ?k = "nat (slot M i j)"
  note sb = slot_bounds[OF inv i, of j]
  have n: "0 \<le> nrow M" and len: "int (length (rowind M)) = nrow M + 1"
    and z: "rowind M ! 0 = 0" and e: "rowind M ! nat (nrow M) = int (length (data M))"
    and l: "length (data M) = length (col M)" and s: "sorted (rowind M)"
    using inv by (simp_all add: invariant_def)
  have 1: "int (length (rowind ?M')) = nrow ?M' + 1"
    using len i by (simp add: inserted_def Let_def)
  have 2: "rowind ?M' ! 0 = 0"
    using inserted_rowind_nth[OF inv i, of 0 j] n i z by simp
  have 3: "rowind ?M' ! nat (nrow ?M') = int (length (data ?M'))"
    using inserted_rowind_nth[OF inv i, of "nrow M" j] n i e sb
    by (simp add: inserted_def Let_def)
  have 4: "length (data ?M') = length (col ?M')"
    using l by (simp add: inserted_def Let_def)
  have 5: "sorted (rowind ?M')"
  proof -
    have "sorted (take (nat (i + 1)) (rowind M))" "sorted (drop (nat (i + 1)) (rowind M))"
      using s sorted_wrt_take sorted_wrt_drop by blast+
    moreover have "x \<le> y + 1"
      if "x \<in> set (take (nat (i + 1)) (rowind M))" "y \<in> set (drop (nat (i + 1)) (rowind M))"
      for x y
    proof -
      have "x \<le> y" using s that
        by (metis append_take_drop_id sorted_append)
      then show ?thesis by simp
    qed
    ultimately show ?thesis
      by (auto simp: inserted_def Let_def sorted_append sorted_map_Suc)
  qed
  have 6: "sorted_wrt (<) (row_cols ?M' r)" if r: "r \<in> {0..<nrow ?M'}" for r
  proof -
    from r have r': "0 \<le> r" "r < nrow M" by simp_all
    have nm: "\<not> (row_pos (row_cols M i) j < length (row_cols M i) \<and>
                 row_cols M i ! row_pos (row_cols M i) j = j)"
      using ns row_pos_mem[OF invariant_row_sorted[OF inv i], of j] by (simp add: stored_def)
    show ?thesis
      using inserted_rows(1)[OF inv i r', of j] invariant_row_sorted[OF inv r']
        sorted_row_insert[OF invariant_row_sorted[OF inv i] nm]
      by (simp split: if_splits)
  qed
  show ?thesis
    unfolding invariant_def using n 1 2 3 4 5 6 by simp
qed

subsection \<open>The matrix that getElementRef leaves\<close>

lemma inserted_stored_slot:
  assumes inv: "invariant M" and i: "0 \<le> i" "i < nrow M"
  shows "stored (inserted M i j) i j" and "slot (inserted M i j) i j = slot M i j"
proof -
  have r: "row_cols (inserted M i j) i =
      take (row_pos (row_cols M i) j) (row_cols M i) @ j # drop (row_pos (row_cols M i) j) (row_cols M i)"
    using inserted_rows(1)[OF inv i i, of j] by simp
  show "stored (inserted M i j) i j" by (simp add: stored_def r)
  have "rowind (inserted M i j) ! nat i = rowind M ! nat i"
    using inserted_rowind_nth[OF inv i, of i j] i by simp
  then show "slot (inserted M i j) i j = slot M i j"
    by (simp add: slot_def r row_pos_insert)
qed

lemma getElementRef_post:
  assumes inv: "invariant M" and i: "0 \<le> i" "i < nrow M" and j: "j < ncol M"
  obtains M1 where "getElementRef M i j = (Inr (slot M i j), M1)"
    and "invariant M1" and "stored M1 i j" and "slot M1 i j = slot M i j"
    and "nrow M1 = nrow M" and "ncol M1 = ncol M"
proof (cases "stored M i j")
  case True
  show ?thesis
    using that[of M] getElementRef_eq[OF inv i j] True inv by simp
next
  case False
  show ?thesis
    using that[of "inserted M i j"] getElementRef_eq[OF inv i j] False
      inserted_invariant[OF inv i False] inserted_stored_slot[OF inv i, of j]
    by simp
qed

lemma assign_ref_fields [simp]:
  "col (assign_ref M k v) = col M" "rowind (assign_ref M k v) = rowind M"
  "nrow (assign_ref M k v) = nrow M" "ncol (assign_ref M k v) = ncol M"
  "length (data (assign_ref M k v)) = length (data M)"
  by (simp_all add: assign_ref_def)

lemma assign_ref_invariant: "invariant M \<Longrightarrow> invariant (assign_ref M k v)"
  by (simp add: invariant_def row_cols_def)

lemma assign_ref_stored_slot [simp]:
  "stored (assign_ref M k v) i j = stored M i j" "slot (assign_ref M k v) i j = slot M i j"
  by (simp_all add: stored_def slot_def row_cols_def)

text \<open>For the evaluation of the invariant on a given matrix.\<close>

lemma Ball_int_interval: "(\<forall>i \<in> {a..<b::int}. P i) \<longleftrightarrow> list_all P [a..b - 1]"
  by (auto simp: list_all_iff)

subsection \<open>Arithmetic within the range of int\<close>

lemma int32_id: "- 2147483648 \<le> x \<Longrightarrow> x \<le> INT_MAX \<Longrightarrow> int32 x = x"
  by (simp add: int32_def INT_MAX_def)

lemma size_t_id: "0 \<le> x \<Longrightarrow> x \<le> INT_MAX \<Longrightarrow> size_t x = x"
  by (simp add: size_t_def INT_MAX_def)

lemma valid_shape_int32:
  assumes "valid_shape n m"
  shows "0 \<le> n" "0 \<le> m" "int32 (n + 1) = n + 1"
  using assms by (simp_all add: valid_shape_def int32_id INT_MAX_def)

lemma valid_dense_shape_int32:
  assumes "valid_dense_shape n m"
  shows "0 \<le> n" "0 \<le> m" "int32 (n + 1) = n + 1" "int32 (n * m) = n * m"
    "size_t (int32 (n * m)) = n * m"
proof -
  from assms have v: "valid_shape n m" and b: "n * m \<le> INT_MAX"
    by (simp_all add: valid_dense_shape_def)
  show n: "0 \<le> n" and m: "0 \<le> m" and "int32 (n + 1) = n + 1"
    using valid_shape_int32[OF v] .
  have nm: "0 \<le> n * m" using n m by simp
  then show i: "int32 (n * m) = n * m" using b by (intro int32_id) simp_all
  show "size_t (int32 (n * m)) = n * m" unfolding i using nm b by (rule size_t_id)
qed

subsection \<open>The loops of makeDense\<close>

lemma makeDense_cols_eq:
  "0 \<le> j \<Longrightarrow> j \<le> m \<Longrightarrow> 0 \<le> el \<Longrightarrow> el + (m - j) \<le> int (length cs) \<Longrightarrow>
   makeDense_cols j m cs el =
     Inr (take (nat el) cs @ [j..m - 1] @ drop (nat (el + (m - j))) cs, el + (m - j))"
proof (induction j m cs el rule: makeDense_cols.induct)
  case (1 j m cs el)
  show ?case
  proof (cases "j < m")
    case False
    with "1.prems" have "j = m" by simp
    then show ?thesis
      by (subst makeDense_cols.simps) simp
  next
    case run: True
    let ?e = "nat el"
    have e: "?e < length cs" using "1.prems" run by linarith
    have va: "vector_assign cs el j = Inr (cs[?e := j])"
      using "1.prems" run by (simp add: vector_assign_def)
    have ih: "makeDense_cols (j + 1) m (cs[?e := j]) (el + 1) =
        Inr (take (nat (el + 1)) (cs[?e := j]) @ [j + 1..m - 1] @
             drop (nat (el + 1 + (m - (j + 1)))) (cs[?e := j]), el + 1 + (m - (j + 1)))"
      using "1.IH"[OF run va] "1.prems" run by simp
    have n1: "nat (el + 1) = Suc ?e" using "1.prems" by linarith
    have n2: "el + 1 + (m - (j + 1)) = el + (m - j)" by simp
    have lt: "?e < nat (el + (m - j))" using "1.prems" run by linarith
    have t: "take (Suc ?e) (cs[?e := j]) = take ?e cs @ [j]"
      using e by (simp add: take_Suc_conv_app_nth)
    have d: "drop (nat (el + (m - j))) (cs[?e := j]) = drop (nat (el + (m - j))) cs"
      using lt by (rule drop_update_cancel)
    have u: "[j..m - 1] = j # [j + 1..m - 1]" using run by (simp add: upto_rec1)
    show ?thesis
      by (subst makeDense_cols.simps) (simp add: run va ih n1 n2 t d u)
  qed
qed

lemma makeDense_rows_eq:
  "0 \<le> i \<Longrightarrow> i \<le> n \<Longrightarrow> 0 \<le> m \<Longrightarrow> int (length cs) = n * m \<Longrightarrow> n \<le> int (length rs) \<Longrightarrow>
   el = i * m \<Longrightarrow>
   makeDense_rows i n m rs cs el =
     Inr (take (nat i) rs @ map (\<lambda>t. t * m) [i..n - 1] @ drop (nat n) rs,
          take (nat (i * m)) cs @ concat (replicate (nat (n - i)) [0..m - 1]),
          n * m)"
proof (induction i n m rs cs el rule: makeDense_rows.induct)
  case (1 i n m rs cs el)
  note el = \<open>el = i * m\<close>
  show ?case
  proof (cases "i < n")
    case False
    with "1.prems" have "i = n" by simp
    then show ?thesis using "1.prems"
      by (subst makeDense_rows.simps) simp
  next
    case run: True
    let ?i = "nat i"
    have im: "0 \<le> i * m" using "1.prems" by simp
    have le: "(i + 1) * m \<le> n * m" using run "1.prems" by (intro mult_right_mono) simp_all
    have i': "?i < length rs" using "1.prems" run by linarith
    have va: "vector_assign rs i el = Inr (rs[?i := el])"
      using "1.prems" run by (simp add: vector_assign_def)
    have b: "i * m + (m - 0) \<le> int (length cs)" using le "1.prems" by (simp add: algebra_simps)
    let ?cs' = "take (nat (i * m)) cs @ [0..m - 1] @ drop (nat (i * m + m)) cs"
    have c: "makeDense_cols 0 m cs el = Inr (?cs', el + m)"
      using makeDense_cols_eq[OF _ "1.prems"(3) im b] by (simp add: el)
    have e: "el + m = (i + 1) * m" by (simp add: algebra_simps el)
    have lc: "int (length ?cs') = n * m"
      using "1.prems" im le by (simp add: algebra_simps) 
    have ih: "makeDense_rows (i + 1) n m (rs[?i := el]) ?cs' (el + m) =
       Inr (take (nat (i + 1)) (rs[?i := el]) @ map (\<lambda>t. t * m) [i + 1..n - 1] @
              drop (nat n) (rs[?i := el]),
            take (nat ((i + 1) * m)) ?cs' @ concat (replicate (nat (n - (i + 1))) [0..m - 1]),
            n * m)"
      using "1.prems" run lc e by (intro "1.IH"[OF run va c refl]) simp_all
    have n1: "nat (i + 1) = Suc ?i" using "1.prems" by linarith
    have t: "take (Suc ?i) (rs[?i := el]) = take ?i rs @ [i * m]"
      using i' by (simp add: take_Suc_conv_app_nth el)
    have d: "drop (nat n) (rs[?i := el]) = drop (nat n) rs"
      using run "1.prems" by (intro drop_update_cancel) linarith
    have u: "[i..n - 1] = i # [i + 1..n - 1]" using run by (simp add: upto_rec1)
    have lt: "length (take (nat (i * m)) cs @ [0..m - 1]) = nat ((i + 1) * m)"
    proof -
      have "nat (i * m) \<le> length cs" using b im "1.prems"(3) by linarith
      then have "length (take (nat (i * m)) cs @ [0..m - 1]) = nat (i * m) + nat m"
        using "1.prems"(3) by simp
      also have "\<dots> = nat (i * m + m)" using im "1.prems"(3) by linarith
      finally show ?thesis by (simp add: algebra_simps)
    qed
    have tc: "take (nat ((i + 1) * m)) ?cs' = take (nat (i * m)) cs @ [0..m - 1]"
      using lt by (metis append.assoc append_eq_conv_conj)
    have r: "replicate (nat (n - i)) [0..m - 1] = [0..m - 1] # replicate (nat (n - (i + 1))) [0..m - 1]"
    proof -
      have "nat (n - i) = Suc (nat (n - (i + 1)))" using run by linarith
      then show ?thesis by simp
    qed
    note ih' = ih[unfolded tc n1 t d]
    show ?thesis
      by (subst makeDense_rows.simps) (simp add: run va c ih' u r)
  qed
qed

subsection \<open>makeDense builds the dense matrix\<close>

lemma makeDense_eq:
  assumes vs: "valid_dense_shape n m"
  shows "makeDense n m val M = (Inr (), dense n m (replicate (nat (n * m)) val))"
proof -
  note n = valid_dense_shape_int32(1)[OF vs] and m = valid_dense_shape_int32(2)[OF vs]
    and i1 = valid_dense_shape_int32(3)[OF vs] and i2 = valid_dense_shape_int32(4)[OF vs]
  have nm: "0 \<le> n * m" using n m by simp
  define c0 where "c0 = take (nat (n * m)) (col M) @ replicate (nat (n * m) - length (col M)) 0"
  define r0 where "r0 = take (nat (n + 1)) (rowind M) @ replicate (nat (n + 1) - length (rowind M)) 0"
  have d: "vector_resize [] (int32 (n * m)) val = Inr (replicate (nat (n * m)) val)"
    unfolding i2 using nm by (simp add: vector_resize_def)
  have c: "vector_resize (col M) (int32 (n * m)) 0 = Inr c0"
    unfolding i2 using nm by (simp add: vector_resize_def c0_def)
  have r: "vector_resize (rowind M) (int32 (n + 1)) 0 = Inr r0"
    unfolding i1 using n by (simp add: vector_resize_def r0_def)
  have lc: "int (length c0) = n * m" using nm by (simp add: c0_def)
  have lr: "length r0 = Suc (nat n)" using n by (simp add: r0_def)
  then have lr': "n \<le> int (length r0)" by linarith
  let ?A = "map (\<lambda>t. t * m) [0..n - 1]"
  have rows: "makeDense_rows 0 n m r0 c0 0 =
      Inr (?A @ drop (nat n) r0, concat (replicate (nat n) [0..m - 1]), n * m)"
    using makeDense_rows_eq[of 0 n m c0 r0 0] n m lc lr' by simp
  have lA: "length ?A = nat n" using n by simp
  obtain x where x: "drop (nat n) r0 = [x]"
    using lr by (cases "drop (nat n) r0") (auto simp: drop_Suc dest: arg_cong[where f=length])
  have upd: "(A @ [x])[length (A @ [x]) - 1 := y] = A @ [y]" for A :: "int list" and y
    by simp
  have ba: "vector_back_assign (?A @ drop (nat n) r0) (n * m) = Inr (?A @ [n * m])"
    unfolding x vector_back_assign_def upd by simp
  have u: "?A @ [n * m] = map (\<lambda>t. t * m) [0..n]"
    using n by (simp add: upto_rec2[of 0 n])
  show ?thesis
    unfolding makeDense_def
    by (simp add: d c r rows ba u size1_def size2_def dense_def Let_def)
qed

subsection \<open>The dense matrix\<close>

lemma dense_fields [simp]:
  "nrow (dense n m vals) = n" "ncol (dense n m vals) = m" "data (dense n m vals) = vals"
  by (simp_all add: dense_def)

lemma dense_rowind_nth:
  "0 \<le> i \<Longrightarrow> i \<le> n \<Longrightarrow> rowind (dense n m vals) ! nat i = i * m"
  by (simp add: dense_def)

lemma length_concat_replicate: "length (concat (replicate k xs)) = k * length xs"
  by (induction k) simp_all

lemma slice_concat_replicate:
  assumes "a < k"
  shows "take (length xs) (drop (a * length xs) (concat (replicate k xs))) = xs"
proof -
  obtain b where k: "k = a + Suc b" using assms less_iff_Suc_add by auto
  have "concat (replicate k xs) = concat (replicate a xs) @ xs @ concat (replicate b xs)"
    unfolding k replicate_add by simp
  then show ?thesis by (simp add: length_concat_replicate)
qed

lemma dense_row_cols:
  assumes "0 \<le> i" "i < n" "0 \<le> m"
  shows "row_cols (dense n m vals) i = [0..m - 1]"
proof -
  have lo: "rowind (dense n m vals) ! nat i = i * m"
    and hi: "rowind (dense n m vals) ! nat (i + 1) = (i + 1) * m"
    using assms dense_rowind_nth[of i n m vals] dense_rowind_nth[of "i + 1" n m vals]
    by simp_all
  have l: "length [0..m - 1] = nat m" using assms by simp
  have a: "nat ((i + 1) * m - i * m) = length [0..m - 1]"
    using assms by (simp add: algebra_simps)
  have b: "nat (i * m) = nat i * length [0..m - 1]"
    using assms by (simp add: nat_mult_distrib)
  have "nat i < nat n" using assms by linarith
  then show ?thesis
    unfolding row_cols_def lo hi slice_def a b
    by (simp only: dense_def Matrix.simps slice_concat_replicate)
qed

lemma dense_row_vals:
  assumes "0 \<le> i" "i < n" "0 \<le> m"
  shows "row_vals (dense n m vals) i = slice vals (i * m) ((i + 1) * m)"
  using assms dense_rowind_nth[of i n m vals] dense_rowind_nth[of "i + 1" n m vals]
  by (simp add: row_vals_def)

lemma dense_invariant:
  assumes n: "0 \<le> n" and m: "0 \<le> m" and l: "int (length vals) = n * m"
  shows "invariant (dense n m vals)"
proof -
  have 1: "int (length (rowind (dense n m vals))) = n + 1" using n by (simp add: dense_def)
  have 2: "rowind (dense n m vals) ! 0 = 0"
    using dense_rowind_nth[of 0 n m vals] n by simp
  have 3: "rowind (dense n m vals) ! nat n = int (length vals)"
    using dense_rowind_nth[of n n m vals] n l by simp
  have 4: "length vals = length (col (dense n m vals))"
  proof -
    have "int (length (col (dense n m vals))) = n * m"
      using n m by (simp add: dense_def length_concat_replicate)
    then show ?thesis using l by simp
  qed
  have 5: "sorted (rowind (dense n m vals))"
    unfolding dense_def using m
    by (simp add: sorted_map sorted_wrt_iff_nth_less mult_right_mono)
  have 6: "sorted_wrt (<) (row_cols (dense n m vals) i)" if "i \<in> {0..<n}" for i
    using that dense_row_cols[of i n m vals] m by simp
  show ?thesis
    unfolding invariant_def using n 1 2 3 4 5 6 by simp
qed

lemma dense_cols_in_range:
  assumes "0 \<le> m"
  shows "cols_in_range (dense n m vals)"
  using assms by (auto simp: cols_in_range_def dense_def)

lemma dense_entry:
  assumes n: "0 \<le> n" and m: "0 \<le> m" and l: "int (length vals) = n * m"
    and i: "0 \<le> i" "i < n" and j: "0 \<le> j" "j < m"
  shows "stored (dense n m vals) i j" and "entry (dense n m vals) i j = vals ! nat (i * m + j)"
proof -
  let ?D = "dense n m vals"
  have c: "row_cols ?D i = [0..m - 1]" using dense_row_cols[OF i m] .
  show "stored ?D i j" using j by (simp add: stored_def c)
  have v: "row_vals ?D i = slice vals (i * m) ((i + 1) * m)" using dense_row_vals[OF i m] .
  have im: "0 \<le> i * m" using i m by simp
  have le: "(i + 1) * m \<le> int (length vals)"
    unfolding l using i m by (intro mult_right_mono) simp_all
  have lv: "length (slice vals (i * m) ((i + 1) * m)) = nat m"
    using length_slice[OF im _ le] m by (simp add: algebra_simps)
  have "map_of (zip [0..m - 1] (row_vals ?D i)) ([0..m - 1] ! nat j) = Some (row_vals ?D i ! nat j)"
    using j m lv by (intro map_of_zip_nth) (simp_all add: v)
  moreover have "[0..m - 1] ! nat j = j" using j by simp
  moreover have "row_vals ?D i ! nat j = vals ! (nat (i * m) + nat j)"
    unfolding v using j m by (intro nth_slice[OF im le]) (simp add: algebra_simps)
  moreover have "nat (i * m) + nat j = nat (i * m + j)" using im j by linarith
  ultimately show "entry ?D i j = vals ! nat (i * m + j)"
    by (simp add: entry_def c)
qed

subsection \<open>The failures of makeDense\<close>

lemma makeDense_cols_error:
  "makeDense_cols j m cs el = Inl e \<Longrightarrow> e = UndefinedBehaviour"
proof (induction j m cs el rule: makeDense_cols.induct)
  case (1 j m cs el)
  from "1.prems" show ?case
    by (subst (asm) makeDense_cols.simps)
       (auto simp: vector_assign_def split: if_splits sum.splits dest: "1.IH")
qed

lemma makeDense_rows_error:
  "makeDense_rows i n m rs cs el = Inl e \<Longrightarrow> e = UndefinedBehaviour"
proof (induction i n m rs cs el rule: makeDense_rows.induct)
  case (1 i n m rs cs el)
  from "1.prems" show ?case
    by (subst (asm) makeDense_rows.simps)
       (auto simp: vector_assign_def split: if_splits sum.splits prod.splits
             dest: "1.IH" makeDense_cols_error)
qed

lemma makeDense_error:
  assumes "fst (makeDense n m val M) = Inl e"
  shows "e = LengthError \<or> e = UndefinedBehaviour"
  using assms unfolding makeDense_def Let_def
  by (auto simp: vector_resize_def vector_back_assign_def
           split: if_splits sum.splits prod.splits dest: makeDense_rows_error)

subsection \<open>The constructors from a sequence\<close>

lemma Matrix_vector_shaped_mismatch:
  "int (length x) \<noteq> size_t (int32 (n * m)) \<Longrightarrow>
   Matrix_vector_shaped conv x n m = Inl (CasadiException
     ''Matrix::Matrix(const std::vector<double>& x,  int n, int m): dimension mismatch'')"
  by (simp add: Matrix_vector_shaped_def)

lemma Matrix_vector_shaped_no_exception:
  fixes conv :: "'b \<Rightarrow> 'a::one"
  assumes "int (length x) = size_t (int32 (n * m))"
  shows "Matrix_vector_shaped conv x n m \<noteq> Inl (CasadiException s)"
proof
  assume a: "Matrix_vector_shaped conv x n m = Inl (CasadiException s)"
  obtain r M1 where md: "makeDense n m (1::'a) new_object = (r, M1)"
    by (cases "makeDense n m (1::'a) (new_object :: 'a Matrix)")
  show False
  proof (cases r)
    case (Inl e)
    then have "e = LengthError \<or> e = UndefinedBehaviour"
      using makeDense_error[of n m "1::'a" new_object e] md by simp
    with a assms md Inl show False by (auto simp: Matrix_vector_shaped_def)
  next
    case (Inr u)
    with a assms md show False
      by (auto simp: Matrix_vector_shaped_def vector_copy_def split: if_splits)
  qed
qed

lemma Matrix_vector_shaped_dense:
  assumes "valid_dense_shape n m" "int (length x) = n * m"
  shows "Matrix_vector_shaped conv x n m = Inr (dense n m (map conv x))"
proof -
  have l: "length x = nat (n * m)" using assms by simp
  have c: "vector_copy (map conv x) (replicate (nat (n * m)) 1) = Inr (map conv x)"
    by (simp add: vector_copy_def l)
  show ?thesis
    using assms(2)
    by (simp add: Matrix_vector_shaped_def valid_dense_shape_int32(5)[OF assms(1)]
        makeDense_eq[OF assms(1)] c dense_def)
qed

lemma Matrix_vector_dense:
  fixes conv :: "'b \<Rightarrow> 'a::one"
  assumes "valid_dense_shape (int (length x)) 1"
  shows "Matrix_vector conv x = Inr (dense (int (length x)) 1 (map conv x))"
proof -
  have c: "vector_copy (map conv x) (replicate (length x) 1) = Inr (map conv x)"
    by (simp add: vector_copy_def)
  have i: "int32 (int (length x)) = int (length x)"
    using valid_dense_shape_int32(4)[OF assms] by simp
  show ?thesis
    using makeDense_eq[OF assms, of "1::'a" new_object]
    by (simp add: Matrix_vector_def i c dense_def)
qed

lemma Matrix_dense_eq:
  "valid_dense_shape n m \<Longrightarrow>
   Matrix_dense n m val = Inr (dense n m (replicate (nat (n * m)) val))"
  by (simp add: Matrix_dense_def makeDense_eq constructed_def)

subsection \<open>The invariant along a sequence of calls\<close>

lemma makeEmpty_eq:
  assumes "valid_shape n m"
  shows "makeEmpty n m M = (Inr (), \<lparr>data = [], col = [], rowind = replicate (nat (n + 1)) 0,
                               nrow = n, ncol = m\<rparr>)"
  using valid_shape_int32(1)[OF assms]
  by (simp add: makeEmpty_def vector_resize_def valid_shape_int32(3)[OF assms])

lemma valid_shape_0_0: "valid_shape 0 0"
  by (simp add: valid_shape_def INT_MAX_def)

lemma valid_dense_shape_1_1: "valid_dense_shape 1 1"
  by (simp add: valid_dense_shape_def valid_shape_def INT_MAX_def)

lemma empty_invariant:
  assumes "0 \<le> n"
  shows "invariant \<lparr>data = [], col = [], rowind = replicate (nat (n + 1)) 0, nrow = n, ncol = m\<rparr>"
proof -
  have "replicate (nat (n + 1)) (0::int) ! 0 = 0" "replicate (nat (n + 1)) (0::int) ! nat n = 0"
    using assms by simp_all
  then show ?thesis
    using assms by (simp add: invariant_def row_cols_def slice_def sorted_replicate)
qed

lemma construct_invariant:
  fixes c :: "('a::{zero,one}, 'b) ctor"
  assumes "ctor_valid c"
  shows "\<exists>M. construct conv c = Inr M \<and> invariant M"
proof (cases c)
  case New
  then show ?thesis
    using makeEmpty_eq[OF valid_shape_0_0, of "new_object :: 'a Matrix"]
      empty_invariant[of 0 0, where 'a = 'a]
    by (simp add: Matrix_default_def constructed_def)
next
  case (New_empty n m)
  with assms have vs: "valid_shape n m" by simp
  show ?thesis
    using New_empty makeEmpty_eq[OF vs, of "new_object :: 'a Matrix"]
      empty_invariant[OF valid_shape_int32(1)[OF vs], of m, where 'a = 'a]
    by (simp add: Matrix_empty_def constructed_def)
next
  case (New_dense n m val)
  with assms have vs: "valid_dense_shape n m" by simp
  note n = valid_dense_shape_int32(1)[OF vs] and m = valid_dense_shape_int32(2)[OF vs]
  have "invariant (dense n m (replicate (nat (n * m)) val))"
    using n m by (intro dense_invariant) simp_all
  then show ?thesis using New_dense Matrix_dense_eq[OF vs, of val] by simp
next
  case (New_scalar val)
  have "Matrix_scalar val = Matrix_dense 1 1 val"
    by (simp add: Matrix_scalar_def Matrix_dense_def makeEmpty_def makeDense_def new_object_def
      constructed_def vector_resize_def getElementRef_def size1_def size2_def vector_index_def
      getElementRef_loop.simps vector_insert_def rowind_loop.simps vector_assign_def
      vector_at_ref_def assign_ref_def makeDense_rows.simps makeDense_cols.simps
      vector_back_assign_def int32_def eval_nat_numeral)
  moreover have "invariant (dense 1 1 (replicate (nat (1 * 1)) val))"
    by (intro dense_invariant) simp_all
  ultimately show ?thesis
    using New_scalar Matrix_dense_eq[OF valid_dense_shape_1_1, of val] by simp
next
  case (New_vector x)
  with assms have vs: "valid_dense_shape (int (length x)) 1" by simp
  have "invariant (dense (int (length x)) 1 (map conv x))"
    by (intro dense_invariant) simp_all
  then show ?thesis using New_vector Matrix_vector_dense[OF vs, of conv] by simp
next
  case (New_vector_shaped x n m)
  with assms have vs: "valid_dense_shape n m" and l: "int (length x) = n * m" by simp_all
  note n = valid_dense_shape_int32(1)[OF vs] and m = valid_dense_shape_int32(2)[OF vs]
  have "invariant (dense n m (map conv x))"
    using n m l by (intro dense_invariant) simp_all
  then show ?thesis using New_vector_shaped Matrix_vector_shaped_dense[OF vs l, of conv] by simp
qed

lemma do_call_invariant:
  assumes inv: "invariant M" and v: "call_valid M c"
  shows "\<exists>M'. do_call c M = Inr M' \<and> invariant M'"
proof (cases c)
  case (Call_getElement i j)
  with v have "0 \<le> i" "i < nrow M" "j < ncol M" by (simp_all add: in_bounds_def)
  then have "getElement M i j = Inr (entry M i j)" using getElement_entry[OF inv] by simp
  then show ?thesis using Call_getElement inv by simp
next
  case (Call_getElementRef i j a)
  with v have i: "0 \<le> i" "i < nrow M" and j: "j < ncol M" by (simp_all add: in_bounds_def)
  obtain M1 where g: "getElementRef M i j = (Inr (slot M i j), M1)" and inv1: "invariant M1"
    using getElementRef_post[OF inv i j] by blast
  show ?thesis
  proof (cases a)
    case None
    then show ?thesis using Call_getElementRef g inv1 by simp
  next
    case (Some x)
    then show ?thesis
      using Call_getElementRef g assign_ref_invariant[OF inv1, of "slot M i j" x] by simp
  qed
next
  case (Call_makeEmpty n m)
  with v have vs: "valid_shape n m" by simp
  show ?thesis
    using Call_makeEmpty makeEmpty_eq[OF vs, of M]
      empty_invariant[OF valid_shape_int32(1)[OF vs], of m]
    by (simp add: constructed_def)
next
  case (Call_makeDense n m val)
  with v have vs: "valid_dense_shape n m" by simp
  note n = valid_dense_shape_int32(1)[OF vs] and m = valid_dense_shape_int32(2)[OF vs]
  have "invariant (dense n m (replicate (nat (n * m)) val))"
    using n m by (intro dense_invariant) simp_all
  then show ?thesis
    using Call_makeDense makeDense_eq[OF vs, of val M] by (simp add: constructed_def)
qed

lemma run_invariant:
  "invariant M \<Longrightarrow> valid_run M cs \<Longrightarrow> \<exists>M'. run cs M = Inr M' \<and> invariant M'"
proof (induction cs arbitrary: M)
  case Nil
  then show ?case by simp
next
  case (Cons c cs)
  from Cons.prems have v: "call_valid M c" by simp
  obtain M1 where d: "do_call c M = Inr M1" and inv1: "invariant M1"
    using do_call_invariant[OF Cons.prems(1) v] by blast
  from Cons.prems(2) d have "valid_run M1 cs" by simp
  from Cons.IH[OF inv1 this] d show ?case by simp
qed

subsection \<open>Printing\<close>

lemma join_Cons: "join sep (x # xs) = x @ concat (map (\<lambda>y. sep @ y) xs)"
  by (induction xs arbitrary: x) simp_all

lemma join_upto:
  "a \<le> b \<Longrightarrow> join sep (map f [a..b]) = f a @ concat (map (\<lambda>i. sep @ f i) [a + 1..b])"
  by (simp add: upto_rec1[of a b] join_Cons comp_def)

lemma printVector_loop_eq:
  "invariant M \<Longrightarrow> 0 < ncol M \<Longrightarrow> 0 \<le> i \<Longrightarrow>
   printVector_loop render M i stream =
     Inr (stream @ concat (map (\<lambda>r. '','' @ render (entry M r 0)) [i..nrow M - 1]))"
proof (induction render M i stream rule: printVector_loop.induct)
  case (1 render M i stream)
  note inv = "1.prems"(1) and c = "1.prems"(2) and i = "1.prems"(3)
  show ?case
  proof (cases "i < nrow M")
    case False
    then show ?thesis by (subst printVector_loop.simps) (simp add: size1_def)
  next
    case True
    have g: "getElement M i 0 = Inr (entry M i 0)"
      using getElement_entry[OF inv i True c] .
    have u: "[i..nrow M - 1] = i # [i + 1..nrow M - 1]" using True by (simp add: upto_rec1)
    have "printVector_loop render M (i + 1) (stream @ '','' @ render (entry M i 0)) =
       Inr ((stream @ '','' @ render (entry M i 0)) @
            concat (map (\<lambda>r. '','' @ render (entry M r 0)) [i + 1..nrow M - 1]))"
      using "1.IH"[OF _ g inv c] True i by (simp add: size1_def)
    then show ?thesis
      by (subst printVector_loop.simps) (simp add: size1_def True g u)
  qed
qed

lemma printMatrix_cols_eq:
  "invariant M \<Longrightarrow> 0 \<le> i \<Longrightarrow> i < nrow M \<Longrightarrow> 0 \<le> j \<Longrightarrow>
   printMatrix_cols render M i j stream =
     Inr (stream @ concat (map (\<lambda>c. '','' @ render (entry M i c)) [j..ncol M - 1]))"
proof (induction render M i j stream rule: printMatrix_cols.induct)
  case (1 render M i j stream)
  note inv = "1.prems"(1) and i = "1.prems"(2,3) and j = "1.prems"(4)
  show ?case
  proof (cases "j < ncol M")
    case False
    then show ?thesis by (subst printMatrix_cols.simps) (simp add: size2_def)
  next
    case True
    have g: "getElement M i j = Inr (entry M i j)"
      using getElement_entry[OF inv i True] .
    have u: "[j..ncol M - 1] = j # [j + 1..ncol M - 1]" using True by (simp add: upto_rec1)
    have "printMatrix_cols render M i (j + 1) (stream @ '','' @ render (entry M i j)) =
       Inr ((stream @ '','' @ render (entry M i j)) @
            concat (map (\<lambda>c. '','' @ render (entry M i c)) [j + 1..ncol M - 1]))"
      using "1.IH"[OF _ g inv i] True j by (simp add: size2_def)
    then show ?thesis
      by (subst printMatrix_cols.simps) (simp add: size2_def True g u)
  qed
qed

lemma printMatrix_rows_eq:
  "invariant M \<Longrightarrow> 0 < ncol M \<Longrightarrow> 0 \<le> i \<Longrightarrow>
   printMatrix_rows render M i stream =
     Inr (stream @ concat (map (\<lambda>r. '',('' @ render (entry M r 0) @
            concat (map (\<lambda>c. '','' @ render (entry M r c)) [1..ncol M - 1]) @ '')'')
          [i..nrow M - 1]))"
proof (induction render M i stream rule: printMatrix_rows.induct)
  case (1 render M i stream)
  note inv = "1.prems"(1) and c = "1.prems"(2) and i = "1.prems"(3)
  show ?case
  proof (cases "i < nrow M")
    case False
    then show ?thesis by (subst printMatrix_rows.simps) (simp add: size1_def)
  next
    case True
    have g: "getElement M i 0 = Inr (entry M i 0)"
      using getElement_entry[OF inv i True c] .
    let ?s1 = "stream @ '',('' @ render (entry M i 0)"
    let ?s2 = "?s1 @ concat (map (\<lambda>c. '','' @ render (entry M i c)) [1..ncol M - 1])"
    have p: "printMatrix_cols render M i 1 ?s1 = Inr ?s2"
      using printMatrix_cols_eq[OF inv i True, of 1 render ?s1] by simp
    have u: "[i..nrow M - 1] = i # [i + 1..nrow M - 1]" using True by (simp add: upto_rec1)
    have ih: "printMatrix_rows render M (i + 1) (?s2 @ '')'') =
       Inr ((?s2 @ '')'') @ concat (map (\<lambda>r. '',('' @ render (entry M r 0) @
            concat (map (\<lambda>c. '','' @ render (entry M r c)) [1..ncol M - 1]) @ '')'')
          [i + 1..nrow M - 1]))"
      using True i by (intro "1.IH"[OF _ g p inv c]) (simp_all add: size1_def)
    have t: "i < size1 M" using True by (simp add: size1_def)
    show ?thesis
      by (subst printMatrix_rows.simps)
         (simp only: t if_True g sum.case p ih, simp add: u)
  qed
qed

lemma print_eq_print_spec:
  assumes inv: "invariant M" and c: "0 \<le> ncol M" and b: "nrow M * ncol M \<le> INT_MAX"
  shows "print render M stream = Inr (stream @ print_spec render M)"
proof -
  have n: "0 \<le> nrow M" using inv by (simp add: invariant_def)
  have nm: "numel M = nrow M * ncol M"
  proof -
    have "0 \<le> nrow M * ncol M" using n c by simp
    then show ?thesis
      unfolding numel_def size1_def size2_def using b by (intro int32_id) simp_all
  qed
  consider (empty) "nrow M * ncol M = 0"
    | (scalar) "nrow M = 1" "ncol M = 1"
    | (vector) "nrow M > 1" "ncol M = 1"
    | (matrix) "nrow M \<ge> 1" "ncol M > 1"
  proof -
    have "nrow M = 0 \<or> ncol M = 0 \<or> (nrow M \<ge> 1 \<and> ncol M \<ge> 1)" using n c by linarith
    then show ?thesis using that by (cases "nrow M = 1"; cases "ncol M = 1") auto
  qed
  then show ?thesis
  proof cases
    case empty
    then show ?thesis
      by (simp add: print_def empty_def nm size1_def size2_def print_spec_def)
  next
    case scalar
    have g: "getElement M 0 0 = Inr (entry M 0 0)"
      using getElement_entry[OF inv, of 0 0] scalar by simp
    show ?thesis
      using scalar
      by (simp add: print_def empty_def nm size1_def size2_def print_spec_def
          printScalar_def g)
  next
    case vector
    have g: "getElement M 0 0 = Inr (entry M 0 0)"
      using getElement_entry[OF inv, of 0 0] vector by simp
    have ne: "nrow M * ncol M \<noteq> 0" "nrow M * ncol M \<noteq> 1" using vector by simp_all
    have l: "printVector_loop render M 1
               (stream @ ''['' @ show_int (nrow M) @ '']('' @ render (entry M 0 0)) =
             Inr ((stream @ ''['' @ show_int (nrow M) @ '']('' @ render (entry M 0 0)) @
                  concat (map (\<lambda>r. '','' @ render (entry M r 0)) [1..nrow M - 1]))"
      using vector by (intro printVector_loop_eq[OF inv]) simp_all
    have j: "join '','' (map (\<lambda>i. render (entry M i 0)) [0..nrow M - 1]) =
             render (entry M 0 0) @ concat (map (\<lambda>r. '','' @ render (entry M r 0)) [1..nrow M - 1])"
      using vector join_upto[of 0 "nrow M - 1" "'',''" "\<lambda>i. render (entry M i 0)"] by simp
    have d: "print render M stream = printVector render M stream"
      using vector ne by (simp add: print_def empty_def nm size1_def size2_def)
    have s: "print_spec render M = ''['' @ show_int (nrow M) @ '']('' @
        join '','' (map (\<lambda>i. render (entry M i 0)) [0..nrow M - 1]) @ '')''"
      using vector ne by (simp add: print_spec_def)
    show ?thesis
      unfolding d s j printVector_def Let_def size1_def
      by (simp only: g sum.case append_assoc l)
  next
    case matrix
    have g: "getElement M 0 0 = Inr (entry M 0 0)"
      using getElement_entry[OF inv, of 0 0] matrix by simp
    have "nrow M * ncol M > 1" using matrix
      by (metis less_1_mult less_le_trans linorder_not_less mult.commute mult_cancel_left1 order_le_less zero_less_one)
    then have ne: "nrow M * ncol M \<noteq> 0" "nrow M * ncol M \<noteq> 1" "ncol M \<noteq> 1" using matrix by simp_all
    let ?row = "\<lambda>r. concat (map (\<lambda>c. '','' @ render (entry M r c)) [1..ncol M - 1])"
    have p: "printMatrix_cols render M 0 1 s = Inr (s @ ?row 0)" for s
      using matrix by (intro printMatrix_cols_eq[OF inv]) simp_all
    have r: "printMatrix_rows render M 1 s =
       Inr (s @ concat (map (\<lambda>r. '',('' @ render (entry M r 0) @ ?row r @ '')'') [1..nrow M - 1]))"
      for s
      using matrix by (intro printMatrix_rows_eq[OF inv]) simp_all
    have jr: "join '','' (map (\<lambda>j. render (entry M i j)) [0..ncol M - 1]) =
              render (entry M i 0) @ ?row i" for i
      using matrix join_upto[of 0 "ncol M - 1" "'',''" "\<lambda>j. render (entry M i j)"] by simp
    have j: "join '','' (map (\<lambda>i. ''('' @ (render (entry M i 0) @ ?row i) @ '')'') [0..nrow M - 1]) =
             (''('' @ (render (entry M 0 0) @ ?row 0) @ '')'') @
             concat (map (\<lambda>r. '','' @ ''('' @ (render (entry M r 0) @ ?row r) @ '')'') [1..nrow M - 1])"
      using matrix join_upto[of 0 "nrow M - 1" "'',''"
          "\<lambda>i. ''('' @ (render (entry M i 0) @ ?row i) @ '')''"] by simp
    have d: "print render M stream = printMatrix render M stream"
      using ne by (simp add: print_def empty_def nm size1_def size2_def)
    have s: "print_spec render M =
        ''['' @ show_int (nrow M) @ '','' @ show_int (ncol M) @ '']'' @ ''('' @
        join '',''
          (map (\<lambda>i. ''('' @ join '','' (map (\<lambda>j. render (entry M i j)) [0..ncol M - 1]) @ '')'')
             [0..nrow M - 1]) @
        '')''"
      using ne by (simp add: print_spec_def)
    show ?thesis
      unfolding d s jr j printMatrix_def Let_def size1_def size2_def
      by (simp add: g p r)
  qed
qed

subsection \<open>The stored columns along a sequence of calls\<close>

lemma inserted_cols_in_range:
  assumes "cols_in_range M" "0 \<le> j" "j < ncol M"
  shows "cols_in_range (inserted M i j)"
proof -
  have "set (take k (col M) @ j # drop k (col M)) \<subseteq> insert j (set (col M))" for k
    using set_take_subset[of k "col M"] set_drop_subset[of k "col M"] by auto
  then show ?thesis
    using assms unfolding cols_in_range_def inserted_def Let_def by (simp add: subset_iff) blast
qed

lemma cols_in_range_not_negative: "cols_in_range M \<Longrightarrow> cols_not_negative M \<and> 0 \<le> ncol M"
  by (simp add: cols_in_range_def cols_not_negative_def)

lemma assign_ref_cols_in_range: "cols_in_range M \<Longrightarrow> cols_in_range (assign_ref M k v)"
  by (simp add: cols_in_range_def)

lemma do_call_cols_in_range:
  assumes inv: "invariant M" and cr: "cols_in_range M" and v: "call_valid M c"
    and d: "do_call c M = Inr M'"
  shows "cols_in_range M'"
proof (cases c)
  case (Call_getElement i j)
  with d cr show ?thesis by (simp split: sum.splits)
next
  case (Call_getElementRef i j a)
  with v have i: "0 \<le> i" "i < nrow M" and j: "0 \<le> j" "j < ncol M"
    by (simp_all add: in_bounds_def)
  let ?M1 = "if stored M i j then M else inserted M i j"
  have g: "getElementRef M i j = (Inr (slot M i j), ?M1)"
    using getElementRef_eq[OF inv i j(2)] .
  have c1: "cols_in_range ?M1" using cr inserted_cols_in_range[OF cr j, of i] by simp
  show ?thesis
  proof (cases a)
    case None
    with d Call_getElementRef g c1 show ?thesis by simp
  next
    case (Some x)
    with d Call_getElementRef g assign_ref_cols_in_range[OF c1, of "slot M i j" x]
    show ?thesis by simp
  qed
next
  case (Call_makeEmpty n m)
  with v have vs: "valid_shape n m" by simp
  show ?thesis
    using d Call_makeEmpty makeEmpty_eq[OF vs, of M] valid_shape_int32(2)[OF vs]
    by (auto simp: constructed_def cols_in_range_def)
next
  case (Call_makeDense n m val)
  with v have vs: "valid_dense_shape n m" by simp
  show ?thesis
    using d Call_makeDense makeDense_eq[OF vs, of val M]
      dense_cols_in_range[OF valid_dense_shape_int32(2)[OF vs]]
    by (auto simp: constructed_def)
qed

lemma run_cols_in_range:
  "invariant M \<Longrightarrow> cols_in_range M \<Longrightarrow> valid_run M cs \<Longrightarrow> run cs M = Inr M' \<Longrightarrow>
   cols_in_range M'"
proof (induction cs arbitrary: M)
  case Nil
  then show ?case by simp
next
  case (Cons c cs)
  from Cons.prems have v: "call_valid M c" by simp
  obtain M1 where d: "do_call c M = Inr M1" and inv1: "invariant M1"
    using do_call_invariant[OF Cons.prems(1) v] by blast
  have c1: "cols_in_range M1" using do_call_cols_in_range[OF Cons.prems(1,2) v d] .
  from Cons.prems(3,4) d have "valid_run M1 cs" "run cs M1 = Inr M'" by simp_all
  from Cons.IH[OF inv1 c1 this] show ?case .
qed

lemma construct_cols_in_range:
  fixes c :: "('a::{zero,one}, 'b) ctor"
  assumes "ctor_valid c" "construct conv c = Inr M"
  shows "cols_in_range M"
proof (cases c)
  case New
  with assms(2) show ?thesis
    using makeEmpty_eq[OF valid_shape_0_0, of "new_object :: 'a Matrix"]
    by (auto simp: Matrix_default_def constructed_def cols_in_range_def)
next
  case (New_empty n m)
  with assms have vs: "valid_shape n m" by simp
  show ?thesis
    using New_empty assms(2) makeEmpty_eq[OF vs, of "new_object :: 'a Matrix"]
      valid_shape_int32(2)[OF vs]
    by (auto simp: Matrix_empty_def constructed_def cols_in_range_def)
next
  case (New_dense n m val)
  with assms have vs: "valid_dense_shape n m" by simp
  show ?thesis
    using New_dense assms(2) Matrix_dense_eq[OF vs, of val]
      dense_cols_in_range[OF valid_dense_shape_int32(2)[OF vs], of n]
    by auto
next
  case (New_scalar val)
  with assms(2) show ?thesis
    by (auto simp: Matrix_scalar_def makeEmpty_def new_object_def
      vector_resize_def getElementRef_def size1_def size2_def vector_index_def
      getElementRef_loop.simps vector_insert_def rowind_loop.simps vector_assign_def
      vector_at_ref_def assign_ref_def cols_in_range_def int32_def eval_nat_numeral)
next
  case (New_vector x)
  with assms have vs: "valid_dense_shape (int (length x)) 1" by simp
  show ?thesis
    using New_vector assms(2) Matrix_vector_dense[OF vs, of conv]
      dense_cols_in_range[of 1 "int (length x)"]
    by auto
next
  case (New_vector_shaped x n m)
  with assms have vs: "valid_dense_shape n m" and l: "int (length x) = n * m" by simp_all
  show ?thesis
    using New_vector_shaped assms(2) Matrix_vector_shaped_dense[OF vs l, of conv]
      dense_cols_in_range[OF valid_dense_shape_int32(2)[OF vs], of n]
    by auto
qed

subsection \<open>The test at the entry of getElement and getElementRef\<close>

lemma getElement_loop_error:
  "getElement_loop cs vs j ind hi = Inl e \<Longrightarrow> e = UndefinedBehaviour \<or> e = OutOfRange"
proof (induction cs vs j ind hi rule: getElement_loop.induct)
  case (1 cs vs j ind hi)
  from "1.prems" show ?case
    by (subst (asm) getElement_loop.simps)
       (auto simp: vector_index_def vector_at_def split: if_splits sum.splits dest: "1.IH")
qed

lemma getElementRef_loop_error:
  "getElementRef_loop cs j ind hi = Inl e \<Longrightarrow> e = UndefinedBehaviour"
proof (induction cs j ind hi rule: getElementRef_loop.induct)
  case (1 cs j ind hi)
  from "1.prems" show ?case
    by (subst (asm) getElementRef_loop.simps)
       (auto simp: vector_index_def split: if_splits sum.splits dest: "1.IH")
qed

lemma rowind_loop_error:
  "rowind_loop rs row n = Inl e \<Longrightarrow> e = UndefinedBehaviour"
proof (induction rs row n rule: rowind_loop.induct)
  case (1 rs row n)
  show ?case
  proof (cases "row < n + 1")
    case False
    with "1.prems" show ?thesis by (subst (asm) rowind_loop.simps) simp
  next
    case run: True
    show ?thesis
    proof (cases "0 \<le> row \<and> row < int (length rs)")
      case False
      then have "vector_index rs row = Inl UndefinedBehaviour" by (simp add: vector_index_def)
      with "1.prems" run show ?thesis by (subst (asm) rowind_loop.simps) simp
    next
      case True
      then have vi: "vector_index rs row = Inr (rs ! nat row)"
        and va: "vector_assign rs row (rs ! nat row + 1) = Inr (rs[nat row := rs ! nat row + 1])"
        by (simp_all add: vector_index_def vector_assign_def)
      from "1.prems" have "rowind_loop (rs[nat row := rs ! nat row + 1]) (row + 1) n = Inl e"
        by (subst (asm) rowind_loop.simps) (simp only: run if_True vi va sum.case)
      then show ?thesis using "1.IH"[OF run vi va] by simp
    qed
  qed
qed

text \<open>
  The exception of the test is thrown exactly when the row or the column reaches its
  upper bound, and the call of \<open>getElementRef\<close> that throws it leaves the matrix as it was.
\<close>

lemma getElement_out_of_bounds:
  "getElement M i j = Inl (CasadiException s) \<longleftrightarrow>
   (nrow M \<le> i \<or> ncol M \<le> j) \<and> s = ''Matrix::getElement: out of bounds''"
proof (cases "nrow M \<le> i \<or> ncol M \<le> j")
  case True
  then show ?thesis by (auto simp: getElement_def size1_def size2_def)
next
  case False
  have "getElement M i j \<noteq> Inl (CasadiException s)"
  proof
    assume a: "getElement M i j = Inl (CasadiException s)"
    with False show False
      by (auto simp: getElement_def size1_def size2_def vector_at_def
               split: if_splits sum.splits dest: getElement_loop_error)
  qed
  with False show ?thesis by simp
qed

lemma getElementRef_out_of_bounds:
  "fst (getElementRef M i j) = Inl (CasadiException s) \<longleftrightarrow>
   (nrow M \<le> i \<or> ncol M \<le> j) \<and> s = ''Matrix::getElementRef: out of bounds''"
proof (cases "nrow M \<le> i \<or> ncol M \<le> j")
  case True
  then show ?thesis by (auto simp: getElementRef_def size1_def size2_def)
next
  case False
  have "fst (getElementRef M i j) \<noteq> Inl (CasadiException s)"
  proof
    assume a: "fst (getElementRef M i j) = Inl (CasadiException s)"
    with False show False
      unfolding getElementRef_def
      by (auto simp: size1_def size2_def vector_index_def vector_insert_def vector_at_ref_def
               split: if_splits sum.splits scan.splits
               dest: getElementRef_loop_error rowind_loop_error)
  qed
  with False show ?thesis by simp
qed

lemma getElementRef_refused_unchanged:
  "nrow M \<le> i \<or> ncol M \<le> j \<Longrightarrow> snd (getElementRef M i j) = M"
  by (auto simp: getElementRef_def size1_def size2_def)

subsection \<open>A shape whose product is beyond the range of int\<close>

text \<open>
  For the shape \<open>(4, 2^30)\<close> the product computed in \<^verbatim>\<open>int\<close> is 0: \<open>makeDense\<close>
  resizes \<open>col\<close> to no entries and writes to its first one, the test of the constructor
  from a sequence lets an empty sequence pass, and \<open>print\<close> takes the matrix for empty.
\<close>

lemma int32_overflow: "int32 (4 * 1073741824) = 0"
  by (simp add: int32_def)

lemma Matrix_dense_overflow: "Matrix_dense 4 1073741824 v = Inl UndefinedBehaviour"
  by (simp add: Matrix_dense_def makeDense_def new_object_def constructed_def vector_resize_def
      int32_def size1_def size2_def makeDense_rows.simps makeDense_cols.simps
      vector_assign_def)

lemma Matrix_vector_shaped_overflow:
  "Matrix_vector_shaped conv [] 4 1073741824 = Inl UndefinedBehaviour"
  by (simp add: Matrix_vector_shaped_def makeDense_def new_object_def vector_resize_def
      int32_def size_t_def size1_def size2_def makeDense_rows.simps makeDense_cols.simps
      vector_assign_def)

lemma print_overflow:
  "print render \<lparr>data = [], col = [], rowind = [0, 0, 0, 0, 0], nrow = 4, ncol = 1073741824\<rparr>
     stream = Inr (stream @ ''<empty expression>'')"
  by (simp add: print_def empty_def numel_def size1_def size2_def int32_def)

section \<open>The claims\<close>

text \<open>
  C1. Every constructor with a valid argument (a shape that is not negative and whose
  sizes \<open>n + 1\<close>, \<open>m\<close> and, for a dense matrix, \<open>n * m\<close> are values of the type
  \<^verbatim>\<open>int\<close>; a sequence of the length of the shape) succeeds and builds a matrix that
  satisfies the invariant, and every sequence of calls of \<open>getElement\<close>,
  \<open>getElementRef\<close> (with or without an assignment through the reference),
  \<open>makeEmpty\<close> and \<open>makeDense\<close>, each valid for the matrix it is made on (a
  coordinate within the shape and fewer stored entries than the maximum of \<^verbatim>\<open>int\<close>; a
  valid shape), succeeds and leaves a matrix that satisfies the invariant: \<open>rowind\<close> has
  \<open>nrow + 1\<close> entries, \<open>rowind[0] = 0\<close>, \<open>rowind[nrow]\<close> is the length of \<open>data\<close>
  and of \<open>col\<close>, \<open>rowind\<close> does not decrease, and the columns of every row increase
  strictly.
\<close>

theorem invariant_after_valid_operations:
  fixes c :: "('a::{zero,one}, 'b) ctor"
  assumes "ctor_valid c"
  shows "\<exists>M. construct conv c = Inr M \<and> invariant M \<and>
           (\<forall>cs. valid_run M cs \<longrightarrow> (\<exists>M'. run cs M = Inr M' \<and> invariant M'))"
proof -
  obtain M where M: "construct conv c = Inr M" "invariant M"
    using construct_invariant[OF assms, of conv] by blast
  then show ?thesis using run_invariant[of M] by blast
qed

theorem invariant_after_valid_operations_witness:
  "ctor_valid (New_empty 3 3 :: (int, int) ctor) \<and>
   construct id (New_empty 3 3 :: (int, int) ctor) =
     Inr \<lparr>data = [], col = [], rowind = [0, 0, 0, 0], nrow = 3, ncol = 3\<rparr> \<and>
   valid_run \<lparr>data = [] :: int list, col = [], rowind = [0, 0, 0, 0], nrow = 3, ncol = 3\<rparr>
     [Call_getElementRef 1 2 (Some 7), Call_getElement 1 2, Call_getElementRef 1 0 None,
      Call_makeDense 2 2 1] \<and>
   run [Call_getElementRef 1 2 (Some 7), Call_getElement 1 2, Call_getElementRef 1 0 None,
        Call_makeDense 2 2 1]
     \<lparr>data = [] :: int list, col = [], rowind = [0, 0, 0, 0], nrow = 3, ncol = 3\<rparr> =
     Inr \<lparr>data = [1, 1, 1, 1], col = [0, 1, 0, 1], rowind = [0, 2, 4], nrow = 2, ncol = 2\<rparr> \<and>
   invariant \<lparr>data = [1, 1, 1, 1 :: int], col = [0, 1, 0, 1], rowind = [0, 2, 4], nrow = 2, ncol = 2\<rparr>"
proof -
  let ?c = "New_empty 3 3 :: (int, int) ctor"
  let ?M = "\<lparr>data = [] :: int list, col = [], rowind = [0, 0, 0, 0], nrow = 3, ncol = 3\<rparr>"
  let ?cs = "[Call_getElementRef 1 2 (Some (7::int)), Call_getElement 1 2,
              Call_getElementRef 1 0 None, Call_makeDense 2 2 1]"
  let ?M3 = "\<lparr>data = [0, 7 :: int], col = [0, 2], rowind = [0, 0, 2, 2], nrow = 3, ncol = 3\<rparr>"
  let ?M' = "\<lparr>data = [1, 1, 1, 1 :: int], col = [0, 1, 0, 1], rowind = [0, 2, 4], nrow = 2, ncol = 2\<rparr>"
  have v: "ctor_valid ?c" by (simp add: valid_shape_def INT_MAX_def)
  have e: "construct id ?c = Inr ?M"
    by (simp add: Matrix_empty_def makeEmpty_def new_object_def constructed_def
        vector_resize_def int32_def eval_nat_numeral)
  have s1: "getElementRef ?M 1 2 =
      (Inr 0, \<lparr>data = [0], col = [2], rowind = [0, 0, 1, 1], nrow = 3, ncol = 3\<rparr>)"
    by (simp add: getElementRef_def size1_def size2_def vector_index_def
        getElementRef_loop.simps vector_insert_def vector_at_ref_def rowind_loop.simps
        vector_assign_def)
  have s2: "getElement \<lparr>data = [7::int], col = [2], rowind = [0, 0, 1, 1], nrow = 3, ncol = 3\<rparr> 1 2
      = Inr 7"
    by (simp add: getElement_def size1_def size2_def vector_at_def vector_index_def
        getElement_loop.simps)
  have s3: "getElementRef \<lparr>data = [7::int], col = [2], rowind = [0, 0, 1, 1], nrow = 3, ncol = 3\<rparr> 1 0
      = (Inr 0, ?M3)"
    by (simp add: getElementRef_def size1_def size2_def vector_index_def
        getElementRef_loop.simps vector_insert_def vector_at_ref_def rowind_loop.simps
        vector_assign_def)
  have s4: "makeDense 2 2 1 ?M3 = (Inr (), ?M')"
    by (simp add: makeDense_def vector_resize_def int32_def size1_def size2_def
        makeDense_rows.simps makeDense_cols.simps vector_assign_def vector_back_assign_def
        eval_nat_numeral)
  have vd: "valid_dense_shape 2 2"
    by (simp add: valid_dense_shape_def valid_shape_def INT_MAX_def)
  have vr: "valid_run ?M ?cs"
    by (simp add: s1 s2 s3 s4 vd assign_ref_def in_bounds_def constructed_def INT_MAX_def)
  have r: "run ?cs ?M = Inr ?M'"
    by (simp add: s1 s2 s3 s4 assign_ref_def constructed_def)
  from invariant_after_valid_operations[OF v, of id]
  obtain M where M: "construct id ?c = Inr M"
    and a: "\<forall>cs. valid_run M cs \<longrightarrow> (\<exists>M'. run cs M = Inr M' \<and> invariant M')"
    by blast
  from M e have "M = ?M" by (simp only: sum.inject)
  with a vr obtain M' where "run ?cs ?M = Inr M'" "invariant M'" by blast
  with r have "invariant ?M'" by (simp only: sum.inject)
  with v e vr r show ?thesis by (intro conjI)
qed



text \<open>
  C3. The test at the entry of \<open>getElement\<close> and \<open>getElementRef\<close> compares the
  coordinate with the upper bounds only. On the empty matrix of shape \<open>(3, 3)\<close>, a
  negative column is read as zero by \<open>getElement\<close> and stored in the pattern by
  \<open>getElementRef\<close>; a negative row makes \<open>getElement\<close> fail in \<^verbatim>\<open>rowind_.at\<close>
  (not with the exception of the bounds test) and makes \<open>getElementRef\<close> read
  \<^verbatim>\<open>rowind_[-1]\<close>. A coordinate at or above an upper bound is refused by both, and the
  refused call of \<open>getElementRef\<close> leaves the matrix as it was (in general:
  \<open>getElement_out_of_bounds\<close>, \<open>getElementRef_out_of_bounds\<close>,
  \<open>getElementRef_refused_unchanged\<close>).
\<close>

theorem bounds_test_misses_negative_coordinates:
  "Matrix_empty 3 3 = Inr \<lparr>data = [], col = [], rowind = [0, 0, 0, 0], nrow = 3, ncol = 3\<rparr> \<and>
   getElement \<lparr>data = [] :: int list, col = [], rowind = [0, 0, 0, 0], nrow = 3, ncol = 3\<rparr> 0 (- 1)
     = Inr 0 \<and>
   getElementRef \<lparr>data = [] :: int list, col = [], rowind = [0, 0, 0, 0], nrow = 3, ncol = 3\<rparr> 0 (- 1)
     = (Inr 0, \<lparr>data = [0], col = [- 1], rowind = [0, 1, 1, 1], nrow = 3, ncol = 3\<rparr>) \<and>
   getElement \<lparr>data = [] :: int list, col = [], rowind = [0, 0, 0, 0], nrow = 3, ncol = 3\<rparr> (- 1) 0
     = Inl OutOfRange \<and>
   getElementRef \<lparr>data = [] :: int list, col = [], rowind = [0, 0, 0, 0], nrow = 3, ncol = 3\<rparr> (- 1) 0
     = (Inl UndefinedBehaviour,
        \<lparr>data = [], col = [], rowind = [0, 0, 0, 0], nrow = 3, ncol = 3\<rparr>) \<and>
   getElement \<lparr>data = [] :: int list, col = [], rowind = [0, 0, 0, 0], nrow = 3, ncol = 3\<rparr> 3 0
     = Inl (CasadiException ''Matrix::getElement: out of bounds'') \<and>
   getElementRef \<lparr>data = [] :: int list, col = [], rowind = [0, 0, 0, 0], nrow = 3, ncol = 3\<rparr> 0 3
     = (Inl (CasadiException ''Matrix::getElementRef: out of bounds''),
        \<lparr>data = [], col = [], rowind = [0, 0, 0, 0], nrow = 3, ncol = 3\<rparr>)"
  by (simp add: Matrix_empty_def makeEmpty_def new_object_def constructed_def vector_resize_def
      getElement_def getElementRef_def size1_def size2_def vector_at_def vector_index_def
      getElement_loop.simps getElementRef_loop.simps vector_insert_def vector_at_ref_def
      rowind_loop.simps vector_assign_def int32_def eval_nat_numeral)



text \<open>
  C5. On a matrix that satisfies the invariant, \<open>getElement(i, j)\<close> for a coordinate
  within the shape returns zero when the coordinate is not in the sparsity pattern, and
  the value stored for it when position \<open>k\<close> of row \<open>i\<close> holds column \<open>j\<close>.
  \<open>getElement\<close> is a \<^verbatim>\<open>const\<close> member function: it returns a value and no object.
\<close>

theorem getElement_zero_or_stored_value:
  assumes "invariant M" "in_bounds M i j"
  shows "(\<not> stored M i j \<longrightarrow> getElement M i j = Inr 0) \<and>
         (\<forall>k. rowind M ! nat i \<le> k \<and> k < rowind M ! nat (i + 1) \<and> col M ! nat k = j \<longrightarrow>
              stored M i j \<and> getElement M i j = Inr (data M ! nat k))"
proof -
  from assms(2) have i: "0 \<le> i" "i < nrow M" and j: "j < ncol M"
    by (simp_all add: in_bounds_def)
  have g: "getElement M i j = Inr (entry M i j)"
    using getElement_entry[OF assms(1) i j] .
  have a: "\<not> stored M i j \<longrightarrow> getElement M i j = Inr 0"
    using entry_absent[OF assms(1) i] g by simp
  have s: "stored M i j \<and> getElement M i j = Inr (data M ! nat k)"
    if k: "rowind M ! nat i \<le> k \<and> k < rowind M ! nat (i + 1) \<and> col M ! nat k = j" for k
  proof -
    have "getElement M i j = Inr (data M ! nat k)"
      using entry_stored[OF assms(1) i, of k j] k g by simp
    moreover have "stored M i j"
    proof -
      note b = invariant_row_bounds[OF assms(1) i]
      have q: "nat (k - rowind M ! nat i) < nat (rowind M ! nat (i + 1) - rowind M ! nat i)"
        using k b by linarith
      have "nat (rowind M ! nat i) + nat (k - rowind M ! nat i) = nat k" using k b by linarith
      then have "row_cols M i ! nat (k - rowind M ! nat i) = j"
        unfolding row_cols_def using nth_slice[OF b(1) b(3) q] k by simp
      moreover have "nat (k - rowind M ! nat i) < length (row_cols M i)"
        using q invariant_row_lengths(1)[OF assms(1) i] by simp
      ultimately show ?thesis unfolding stored_def by (metis nth_mem)
    qed
    ultimately show ?thesis by simp
  qed
  show ?thesis using a s by blast
qed

theorem getElement_zero_or_stored_value_witness:
  "invariant \<lparr>data = [7::int], col = [2], rowind = [0, 0, 1, 1], nrow = 3, ncol = 3\<rparr> \<and>
   in_bounds \<lparr>data = [7::int], col = [2], rowind = [0, 0, 1, 1], nrow = 3, ncol = 3\<rparr> 1 2 \<and>
   stored \<lparr>data = [7::int], col = [2], rowind = [0, 0, 1, 1], nrow = 3, ncol = 3\<rparr> 1 2 \<and>
   getElement \<lparr>data = [7::int], col = [2], rowind = [0, 0, 1, 1], nrow = 3, ncol = 3\<rparr> 1 2 = Inr 7 \<and>
   in_bounds \<lparr>data = [7::int], col = [2], rowind = [0, 0, 1, 1], nrow = 3, ncol = 3\<rparr> 1 0 \<and>
   \<not> stored \<lparr>data = [7::int], col = [2], rowind = [0, 0, 1, 1], nrow = 3, ncol = 3\<rparr> 1 0 \<and>
   getElement \<lparr>data = [7::int], col = [2], rowind = [0, 0, 1, 1], nrow = 3, ncol = 3\<rparr> 1 0 = Inr 0"
proof -
  let ?M = "\<lparr>data = [7::int], col = [2], rowind = [0, 0, 1, 1], nrow = 3, ncol = 3\<rparr>"
  have inv: "invariant ?M" by code_simp
  have b1: "in_bounds ?M 1 2" and b2: "in_bounds ?M 1 0" by (simp_all add: in_bounds_def)
  have ns: "\<not> stored ?M 1 0" by code_simp
  have k: "rowind ?M ! nat 1 \<le> 0 \<and> 0 < rowind ?M ! nat (1 + 1) \<and> col ?M ! nat 0 = 2"
    by (simp add: eval_nat_numeral)
  from getElement_zero_or_stored_value[OF inv b1] k
  have "stored ?M 1 2 \<and> getElement ?M 1 2 = Inr (data ?M ! nat 0)" by blast
  moreover from getElement_zero_or_stored_value[OF inv b2] ns
  have "getElement ?M 1 0 = Inr 0" by blast
  ultimately show ?thesis using inv b1 b2 ns by simp
qed

text \<open>
  C6. For a shape that is not negative and whose sizes \<open>n + 1\<close>, \<open>m\<close> and \<open>n * m\<close> are
  values of the type \<^verbatim>\<open>int\<close>, the dense-fill constructor \<open>(n, m, val)\<close> builds
  a matrix with \<open>numel = n * m\<close> on which \<open>getElement(i, j)\<close> returns \<open>val\<close> for every
  coordinate within the shape, in which every row \<open>i\<close> takes \<open>m\<close> positions
  (\<open>rowind[i+1] - rowind[i] = m\<close>, with \<open>rowind[i] = i * m\<close>) and has the columns
  \<open>0, 1, \<dots>, m - 1\<close>.
\<close>

theorem dense_fill_constructor:
  assumes "valid_dense_shape n m"
  shows "\<exists>M. Matrix_dense n m val = Inr M \<and> nrow M = n \<and> ncol M = m \<and> numel M = n * m \<and>
           (\<forall>i j. in_bounds M i j \<longrightarrow> getElement M i j = Inr val) \<and>
           (\<forall>i. 0 \<le> i \<and> i < n \<longrightarrow>
                rowind M ! nat i = i * m \<and>
                rowind M ! nat (i + 1) - rowind M ! nat i = m \<and>
                row_cols M i = [0..m - 1])"
proof -
  let ?vals = "replicate (nat (n * m)) val"
  let ?D = "dense n m ?vals"
  note n = valid_dense_shape_int32(1)[OF assms] and m = valid_dense_shape_int32(2)[OF assms]
  have nm: "0 \<le> n * m" using n m by simp
  have l: "int (length ?vals) = n * m" using nm by simp
  have inv: "invariant ?D" using dense_invariant[OF n m l] .
  have g: "getElement ?D i j = Inr val" if b: "in_bounds ?D i j" for i j
  proof -
    from b have i: "0 \<le> i" "i < n" and j: "0 \<le> j" "j < m" by (simp_all add: in_bounds_def)
    have "(i + 1) * m \<le> n * m" using i m by (intro mult_right_mono) simp_all
    then have "i * m + j < n * m" using j by (simp add: algebra_simps)
    moreover have "0 \<le> i * m + j" using i j m by simp
    ultimately have "nat (i * m + j) < nat (n * m)" by linarith
    then have "entry ?D i j = val"
      using dense_entry(2)[OF n m l i j] by simp
    then show ?thesis using getElement_entry[OF inv, of i j] i j by simp
  qed
  have r: "rowind ?D ! nat i = i * m \<and> rowind ?D ! nat (i + 1) - rowind ?D ! nat i = m \<and>
           row_cols ?D i = [0..m - 1]" if i: "0 \<le> i \<and> i < n" for i
    using i dense_rowind_nth[of i n m ?vals] dense_rowind_nth[of "i + 1" n m ?vals]
      dense_row_cols[of i n m ?vals] n m
    by (simp add: algebra_simps)
  have "Matrix_dense n m val = Inr ?D" using Matrix_dense_eq[OF assms] .
  moreover have "numel ?D = n * m"
    by (simp add: numel_def size1_def size2_def valid_dense_shape_int32(4)[OF assms])
  moreover have "nrow ?D = n" "ncol ?D = m" by simp_all
  ultimately show ?thesis using g r by blast
qed

theorem dense_fill_constructor_witness:
  "valid_dense_shape 2 3 \<and>
   Matrix_dense 2 3 (5::int) =
     Inr \<lparr>data = [5, 5, 5, 5, 5, 5], col = [0, 1, 2, 0, 1, 2], rowind = [0, 3, 6],
          nrow = 2, ncol = 3\<rparr> \<and>
   (\<exists>M. Matrix_dense 2 3 (5::int) = Inr M \<and> numel M = 2 * 3 \<and>
        getElement M 1 2 = Inr 5 \<and> row_cols M 1 = [0, 1, 2])"
proof -
  have e: "Matrix_dense 2 3 (5::int) =
     Inr \<lparr>data = [5, 5, 5, 5, 5, 5], col = [0, 1, 2, 0, 1, 2], rowind = [0, 3, 6],
          nrow = 2, ncol = 3\<rparr>"
    by (simp add: Matrix_dense_def makeDense_def new_object_def constructed_def
        vector_resize_def int32_def size1_def size2_def makeDense_rows.simps
        makeDense_cols.simps vector_assign_def vector_back_assign_def eval_nat_numeral)
  have u: "[0..3 - 1] = [0, 1, 2::int]" by (simp add: upto.simps)
  have v: "valid_dense_shape 2 3"
    by (simp add: valid_dense_shape_def valid_shape_def INT_MAX_def)
  from dense_fill_constructor[OF v, of "5::int"]
  obtain M where M: "Matrix_dense 2 3 (5::int) = Inr M" "numel M = 2 * 3"
    "\<forall>i j. in_bounds M i j \<longrightarrow> getElement M i j = Inr 5"
    "\<forall>i. 0 \<le> i \<and> i < 2 \<longrightarrow> rowind M ! nat i = i * 3 \<and>
         rowind M ! nat (i + 1) - rowind M ! nat i = 3 \<and> row_cols M i = [0..3 - 1]"
    by auto
  have b: "in_bounds M 1 2" using M(1) e by (auto simp: in_bounds_def)
  have "getElement M 1 2 = Inr 5" using M(3) b by blast
  moreover have "row_cols M 1 = [0, 1, 2]" using M(4) u by simp
  ultimately show ?thesis using v e M(1,2) by simp
qed

text \<open>
  C7. The constructor from a bare value \<open>v\<close> builds the same object as the dense-fill
  constructor with shape \<open>(1, 1)\<close> and value \<open>v\<close>: one row, one column, one stored
  entry, and \<open>getElement(0, 0)\<close> returns \<open>v\<close>.
\<close>

theorem scalar_constructor_is_dense_1_1:
  "Matrix_scalar v = Matrix_dense 1 1 v \<and>
   (\<exists>M. Matrix_scalar v = Inr M \<and> nrow M = 1 \<and> ncol M = 1 \<and>
        length (data M) = 1 \<and> length (col M) = 1 \<and> getElement M 0 0 = Inr v)"
  by (simp add: Matrix_scalar_def Matrix_dense_def makeEmpty_def makeDense_def new_object_def
      constructed_def vector_resize_def getElementRef_def size1_def size2_def vector_index_def
      getElementRef_loop.simps vector_insert_def rowind_loop.simps vector_assign_def
      vector_at_ref_def assign_ref_def makeDense_rows.simps makeDense_cols.simps
      vector_back_assign_def getElement_def vector_at_def getElement_loop.simps
      int32_def eval_nat_numeral)

text \<open>
  C8. For a shape \<open>(n, m)\<close> that is not negative and whose sizes \<open>n + 1\<close>, \<open>m\<close> and
  \<open>n * m\<close> are values of the type \<^verbatim>\<open>int\<close>, the constructor from a sequence \<open>x\<close> and
  the shape throws the exception \<open>dimension mismatch\<close> exactly when the length of \<open>x\<close>
  is not \<open>n * m\<close>. When the length is \<open>n * m\<close> it builds the dense matrix with the
  converted elements of \<open>x\<close> in row-major order: every coordinate within the shape is
  stored and \<open>getElement(i, j)\<close> returns element \<open>i * m + j\<close> of the sequence.
\<close>

theorem sequence_constructor_shape:
  fixes conv :: "'b \<Rightarrow> 'a::{zero,one}"
  assumes "valid_dense_shape n m"
  shows "(Matrix_vector_shaped conv x n m =
            Inl (CasadiException
              ''Matrix::Matrix(const std::vector<double>& x,  int n, int m): dimension mismatch'') \<longleftrightarrow>
          int (length x) \<noteq> n * m) \<and>
         (int (length x) = n * m \<longrightarrow>
            (\<exists>M. Matrix_vector_shaped conv x n m = Inr M \<and> M = dense n m (map conv x) \<and>
                 (\<forall>i j. in_bounds M i j \<longrightarrow>
                    stored M i j \<and> getElement M i j = Inr (conv (x ! nat (i * m + j))))))"
proof (intro conjI impI)
  note s = valid_dense_shape_int32(5)[OF assms]
  show "Matrix_vector_shaped conv x n m =
            Inl (CasadiException
              ''Matrix::Matrix(const std::vector<double>& x,  int n, int m): dimension mismatch'') \<longleftrightarrow>
        int (length x) \<noteq> n * m"
    using Matrix_vector_shaped_mismatch[of x n m conv]
      Matrix_vector_shaped_no_exception[of x n m conv]
    unfolding s by auto
next
  assume a: "int (length x) = n * m"
  note n = valid_dense_shape_int32(1)[OF assms] and m = valid_dense_shape_int32(2)[OF assms]
  have l: "int (length (map conv x)) = n * m" using a by simp
  let ?D = "dense n m (map conv x)"
  have inv: "invariant ?D" using dense_invariant[OF n m l] .
  have g: "stored ?D i j \<and> getElement ?D i j = Inr (conv (x ! nat (i * m + j)))"
    if b: "in_bounds ?D i j" for i j
  proof -
    from b have i: "0 \<le> i" "i < n" and j: "0 \<le> j" "j < m" by (simp_all add: in_bounds_def)
    have "(i + 1) * m \<le> n * m" using i m by (intro mult_right_mono) simp_all
    then have "i * m + j < n * m" using j by (simp add: algebra_simps)
    moreover have "0 \<le> i * m + j" using i j m by simp
    ultimately have "nat (i * m + j) < length x" using a by linarith
    then have "entry ?D i j = conv (x ! nat (i * m + j))"
      using dense_entry(2)[OF n m l i j] by simp
    then show ?thesis
      using getElement_entry[OF inv, of i j] dense_entry(1)[OF n m l i j] i j by simp
  qed
  have "Matrix_vector_shaped conv x n m = Inr ?D"
    using Matrix_vector_shaped_dense[OF assms a, of conv] .
  then show "\<exists>M. Matrix_vector_shaped conv x n m = Inr M \<and> M = dense n m (map conv x) \<and>
                 (\<forall>i j. in_bounds M i j \<longrightarrow>
                    stored M i j \<and> getElement M i j = Inr (conv (x ! nat (i * m + j))))"
    using g by blast
qed

theorem sequence_constructor_shape_witness:
  "valid_dense_shape 2 2 \<and>
   Matrix_vector_shaped id [1, 2, 3, 4 :: int] 2 2 =
     Inr \<lparr>data = [1, 2, 3, 4 :: int], col = [0, 1, 0, 1], rowind = [0, 2, 4], nrow = 2, ncol = 2\<rparr> \<and>
   getElement \<lparr>data = [1, 2, 3, 4 :: int], col = [0, 1, 0, 1], rowind = [0, 2, 4], nrow = 2, ncol = 2\<rparr> 0 0 = Inr 1 \<and>
   getElement \<lparr>data = [1, 2, 3, 4 :: int], col = [0, 1, 0, 1], rowind = [0, 2, 4], nrow = 2, ncol = 2\<rparr> 0 1 = Inr 2 \<and>
   getElement \<lparr>data = [1, 2, 3, 4 :: int], col = [0, 1, 0, 1], rowind = [0, 2, 4], nrow = 2, ncol = 2\<rparr> 1 0 = Inr 3 \<and>
   getElement \<lparr>data = [1, 2, 3, 4 :: int], col = [0, 1, 0, 1], rowind = [0, 2, 4], nrow = 2, ncol = 2\<rparr> 1 1 = Inr 4 \<and>
   Matrix_vector_shaped id [1, 2, 3 :: int] 2 2 =
     (Inl (CasadiException
        ''Matrix::Matrix(const std::vector<double>& x,  int n, int m): dimension mismatch'')
      :: error + int Matrix)"
proof -
  let ?x = "[1, 2, 3, 4 :: int]"
  let ?M = "\<lparr>data = ?x, col = [0, 1, 0, 1], rowind = [0, 2, 4], nrow = 2, ncol = 2\<rparr>"
  have vs: "valid_dense_shape 2 2"
    by (simp add: valid_dense_shape_def valid_shape_def INT_MAX_def)
  have d: "dense 2 2 (map id ?x) = ?M"
    by (simp add: dense_def upto.simps eval_nat_numeral)
  have h: "int (length ?x) = 2 * 2" by simp
  from sequence_constructor_shape[OF vs, of "id :: int \<Rightarrow> int" ?x] h
  have e: "Matrix_vector_shaped id ?x 2 2 = Inr ?M"
    and g: "\<forall>i j. in_bounds ?M i j \<longrightarrow>
              stored ?M i j \<and> getElement ?M i j = Inr (id (?x ! nat (i * 2 + j)))"
    unfolding d by auto
  have b: "in_bounds ?M 0 0" "in_bounds ?M 0 1" "in_bounds ?M 1 0" "in_bounds ?M 1 1"
    by (simp_all add: in_bounds_def)
  have v: "getElement ?M 0 0 = Inr 1" "getElement ?M 0 1 = Inr 2"
    "getElement ?M 1 0 = Inr 3" "getElement ?M 1 1 = Inr 4"
    using g[rule_format, OF b(1)] g[rule_format, OF b(2)]
      g[rule_format, OF b(3)] g[rule_format, OF b(4)]
    by (simp_all add: eval_nat_numeral)
  have "int (length [1, 2, 3 :: int]) \<noteq> 2 * 2" by simp
  with sequence_constructor_shape[OF vs, of "id :: int \<Rightarrow> int" "[1, 2, 3]"]
  have "Matrix_vector_shaped id [1, 2, 3 :: int] 2 2 =
     (Inl (CasadiException
        ''Matrix::Matrix(const std::vector<double>& x,  int n, int m): dimension mismatch'')
      :: error + int Matrix)"
    by blast
  with vs e v show ?thesis by simp
qed

text \<open>
  C9. On a matrix that satisfies the invariant, whose number of columns is not negative
  and whose number of elements \<open>nrow * ncol\<close> is a value of the type \<^verbatim>\<open>int\<close>,
  \<open>print\<close> appends to the stream: the text \<open><empty expression>\<close> when
  \<open>numel = 0\<close>; the rendered value of the only coordinate when \<open>numel = 1\<close>;
  \<open>[nrow](v0,...,v(nrow-1))\<close> when \<open>ncol = 1\<close> and \<open>nrow > 1\<close>; and in every other
  case \<open>[nrow,ncol]((row 0),(row 1),...)\<close>, the values of a row joined by commas, the
  rows in parentheses joined by commas, and one more pair of parentheses around them. The
  values are those of the matrix as a mapping (zero for a coordinate that is not stored).
\<close>

theorem print_formats:
  assumes "invariant M" "0 \<le> ncol M" "nrow M * ncol M \<le> INT_MAX"
  shows "(numel M = 0 \<longrightarrow> print render M stream = Inr (stream @ ''<empty expression>'')) \<and>
         (numel M = 1 \<longrightarrow> print render M stream = Inr (stream @ render (entry M 0 0))) \<and>
         (ncol M = 1 \<and> nrow M > 1 \<longrightarrow>
            print render M stream =
              Inr (stream @ ''['' @ show_int (nrow M) @ '']('' @
                   join '','' (map (\<lambda>i. render (entry M i 0)) [0..nrow M - 1]) @ '')'')) \<and>
         (numel M \<noteq> 0 \<and> numel M \<noteq> 1 \<and> ncol M \<noteq> 1 \<longrightarrow>
            print render M stream =
              Inr (stream @ ''['' @ show_int (nrow M) @ '','' @ show_int (ncol M) @ '']'' @
                   ''('' @
                   join '',''
                     (map (\<lambda>i. ''('' @
                                join '','' (map (\<lambda>j. render (entry M i j)) [0..ncol M - 1]) @
                                '')'')
                        [0..nrow M - 1]) @
                   '')''))"
proof -
  have p: "print render M stream = Inr (stream @ print_spec render M)"
    using print_eq_print_spec[OF assms] .
  have n: "numel M = nrow M * ncol M"
  proof -
    have "0 \<le> nrow M" using assms(1) by (simp add: invariant_def)
    then have "0 \<le> nrow M * ncol M" using assms(2) by simp
    then show ?thesis
      unfolding numel_def size1_def size2_def using assms(3) by (intro int32_id) simp_all
  qed
  have 1: "numel M = 0 \<longrightarrow> print_spec render M = ''<empty expression>''"
    by (simp add: n print_spec_def)
  have 2: "numel M = 1 \<longrightarrow> print_spec render M = render (entry M 0 0)"
    by (simp add: n print_spec_def)
  have 3: "ncol M = 1 \<and> nrow M > 1 \<longrightarrow> print_spec render M =
      ''['' @ show_int (nrow M) @ '']('' @
      join '','' (map (\<lambda>i. render (entry M i 0)) [0..nrow M - 1]) @ '')''"
    by (simp add: print_spec_def)
  have 4: "numel M \<noteq> 0 \<and> numel M \<noteq> 1 \<and> ncol M \<noteq> 1 \<longrightarrow> print_spec render M =
      ''['' @ show_int (nrow M) @ '','' @ show_int (ncol M) @ '']'' @ ''('' @
      join '',''
        (map (\<lambda>i. ''('' @ join '','' (map (\<lambda>j. render (entry M i j)) [0..ncol M - 1]) @ '')'')
           [0..nrow M - 1]) @
      '')''"
    by (simp add: n print_spec_def)
  show ?thesis
    unfolding p using 1 2 3 4 by simp
qed

theorem print_formats_witness:
  "invariant \<lparr>data = [1, 2, 3, 4 :: int], col = [0, 1, 0, 1], rowind = [0, 2, 4], nrow = 2, ncol = 2\<rparr> \<and>
   0 \<le> ncol \<lparr>data = [1, 2, 3, 4 :: int], col = [0, 1, 0, 1], rowind = [0, 2, 4], nrow = 2, ncol = 2\<rparr> \<and>
   nrow \<lparr>data = [1, 2, 3, 4 :: int], col = [0, 1, 0, 1], rowind = [0, 2, 4], nrow = 2, ncol = 2\<rparr> *
   ncol \<lparr>data = [1, 2, 3, 4 :: int], col = [0, 1, 0, 1], rowind = [0, 2, 4], nrow = 2, ncol = 2\<rparr>
     \<le> INT_MAX \<and>
   print show_int
     \<lparr>data = [1, 2, 3, 4 :: int], col = [0, 1, 0, 1], rowind = [0, 2, 4], nrow = 2, ncol = 2\<rparr> []
     = Inr ''[2,2]((1,2),(3,4))''"
proof -
  let ?M = "\<lparr>data = [1, 2, 3, 4 :: int], col = [0, 1, 0, 1], rowind = [0, 2, 4], nrow = 2, ncol = 2\<rparr>"
  have inv: "invariant ?M"
    by (simp add: invariant_def row_cols_def slice_def Ball_int_interval upto.simps)
  have c: "0 \<le> ncol ?M" by simp
  have b: "nrow ?M * ncol ?M \<le> INT_MAX" by (simp add: INT_MAX_def)
  have n: "numel ?M \<noteq> 0 \<and> numel ?M \<noteq> 1 \<and> ncol ?M \<noteq> 1"
    by (simp add: numel_def size1_def size2_def int32_def)
  have e: "entry ?M 0 0 = 1" "entry ?M 0 1 = 2" "entry ?M 1 0 = 3" "entry ?M 1 1 = 4"
    by (simp_all add: entry_def row_cols_def row_vals_def slice_def)
  have s: "show_int 1 = ''1''" "show_int 2 = ''2''" "show_int 3 = ''3''" "show_int 4 = ''4''"
    by (simp_all add: show_int_def show_nat.simps show_digit_def)
  from print_formats[OF inv c b, of show_int "[]"] n
  have "print show_int ?M [] =
      Inr ([] @ ''['' @ show_int (nrow ?M) @ '','' @ show_int (ncol ?M) @ '']'' @ ''('' @
           join '',''
             (map (\<lambda>i. ''('' @
                        join '','' (map (\<lambda>j. show_int (entry ?M i j)) [0..ncol ?M - 1]) @
                        '')'')
                [0..nrow ?M - 1]) @
           '')'')"
    by blast
  then have "print show_int ?M [] = Inr ''[2,2]((1,2),(3,4))''"
    by (simp add: upto.simps e s)
  with inv c b show ?thesis by simp
qed

text \<open>
  C10. The claim as stated, for every matrix, does not hold: \<open>getElementRef(0, -1)\<close> on
  the empty matrix of shape \<open>(3, 3)\<close> passes the test at the entry and stores column
  \<open>-1\<close>; after 9 is assigned through the reference the matrix still satisfies the
  invariant, and \<open>getElement(0, -1)\<close> returns 9, not zero.
\<close>

theorem getElement_negative_column_counterexample:
  "run [Call_getElementRef 0 (- 1) (Some 9)]
     \<lparr>data = [] :: int list, col = [], rowind = [0, 0, 0, 0], nrow = 3, ncol = 3\<rparr> =
     Inr \<lparr>data = [9], col = [- 1], rowind = [0, 1, 1, 1], nrow = 3, ncol = 3\<rparr> \<and>
   invariant \<lparr>data = [9 :: int], col = [- 1], rowind = [0, 1, 1, 1], nrow = 3, ncol = 3\<rparr> \<and>
   (0 :: int) \<le> 0 \<and>
   0 < nrow \<lparr>data = [9 :: int], col = [- 1], rowind = [0, 1, 1, 1], nrow = 3, ncol = 3\<rparr> \<and>
   (- 1 :: int) < 0 \<and>
   getElement \<lparr>data = [9 :: int], col = [- 1], rowind = [0, 1, 1, 1], nrow = 3, ncol = 3\<rparr> 0 (- 1)
     = Inr 9 \<and>
   getElement \<lparr>data = [9 :: int], col = [- 1], rowind = [0, 1, 1, 1], nrow = 3, ncol = 3\<rparr> 0 (- 1)
     \<noteq> Inr 0"
proof -
  let ?M = "\<lparr>data = [] :: int list, col = [], rowind = [0, 0, 0, 0], nrow = 3, ncol = 3\<rparr>"
  let ?M' = "\<lparr>data = [9 :: int], col = [- 1], rowind = [0, 1, 1, 1], nrow = 3, ncol = 3\<rparr>"
  have g: "getElementRef ?M 0 (- 1) =
      (Inr 0, \<lparr>data = [0], col = [- 1], rowind = [0, 1, 1, 1], nrow = 3, ncol = 3\<rparr>)"
    by (simp add: getElementRef_def size1_def size2_def vector_index_def
        getElementRef_loop.simps vector_insert_def vector_at_ref_def rowind_loop.simps
        vector_assign_def)
  have r: "run [Call_getElementRef 0 (- 1) (Some 9)] ?M = Inr ?M'"
    by (simp add: g assign_ref_def)
  have inv: "invariant ?M'"
    by (simp add: invariant_def row_cols_def slice_def Ball_int_interval upto.simps)
  have v: "getElement ?M' 0 (- 1) = Inr 9"
    by (simp add: getElement_def size1_def size2_def vector_at_def vector_index_def
        getElement_loop.simps)
  from r inv v show ?thesis by simp
qed

text \<open>
  C10, amended. On a matrix that satisfies the invariant, whose number of columns is not
  negative and in which no stored column is negative, \<open>getElement(i, j)\<close> with a row
  \<open>i\<close> of the matrix and a negative column \<open>j\<close> raises nothing and returns zero: the
  test at the entry compares \<open>j\<close> with the upper bound only, and no stored column equals
  \<open>j\<close>. Every matrix that valid operations build is such a matrix (\<open>run_invariant\<close>,
  \<open>run_cols_in_range\<close>, \<open>cols_in_range_not_negative\<close>).
\<close>

theorem getElement_negative_column_zero:
  assumes "invariant M" "0 \<le> ncol M" "cols_not_negative M"
    and "0 \<le> i" "i < nrow M" "j < 0"
  shows "getElement M i j = Inr 0"
proof -
  from assms(2,6) have j: "j < ncol M" by simp
  have "set (row_cols M i) \<subseteq> set (col M)"
    unfolding row_cols_def slice_def by (meson set_take_subset set_drop_subset subset_trans)
  with assms(3,6) have "\<not> stored M i j"
    unfolding stored_def cols_not_negative_def by fastforce
  then have "entry M i j = 0" using entry_absent[OF assms(1,4,5)] by simp
  then show ?thesis using getElement_entry[OF assms(1,4,5) j] by simp
qed

theorem getElement_negative_column_zero_witness:
  "invariant \<lparr>data = [7::int], col = [0], rowind = [0, 0, 1, 1], nrow = 3, ncol = 3\<rparr> \<and>
   0 \<le> ncol \<lparr>data = [7::int], col = [0], rowind = [0, 0, 1, 1], nrow = 3, ncol = 3\<rparr> \<and>
   cols_not_negative \<lparr>data = [7::int], col = [0], rowind = [0, 0, 1, 1], nrow = 3, ncol = 3\<rparr> \<and>
   (0::int) \<le> 1 \<and>
   1 < nrow \<lparr>data = [7::int], col = [0], rowind = [0, 0, 1, 1], nrow = 3, ncol = 3\<rparr> \<and>
   (- 1 :: int) < 0 \<and>
   getElement \<lparr>data = [7::int], col = [0], rowind = [0, 0, 1, 1], nrow = 3, ncol = 3\<rparr> 1 (- 1) = Inr 0"
proof -
  let ?M = "\<lparr>data = [7::int], col = [0], rowind = [0, 0, 1, 1], nrow = 3, ncol = 3\<rparr>"
  have inv: "invariant ?M"
    by (simp add: invariant_def row_cols_def slice_def Ball_int_interval upto.simps)
  have n: "0 \<le> ncol ?M" and c: "cols_not_negative ?M"
    by (simp_all add: cols_not_negative_def)
  have i: "(0::int) \<le> 1" "1 < nrow ?M" and j: "(- 1 :: int) < 0" by simp_all
  from getElement_negative_column_zero[OF inv n c i j] inv n c i j show ?thesis by simp
qed

end
